theory Spec2Isabelle
  imports Main "HOL-Library.List_Lexorder" "HOL-Library.Option_ord" "HOL-Library.Product_Lexorder"
    "HOL-Library.AList"
begin

section \<open>Strings\<close>

text \<open>
  Text that the program treats as text (titles, authors, highlight texts, file names) is
  modelled by the sequence of runes that Go's \<open>range\<close> yields on a UTF-8 string: the
  library functions used on it (\<open>strings.TrimSpace\<close>, \<open>strings.Fields\<close>, the replacer)
  are specified rune by rune. Comparing two such sequences rune by rune gives the order
  of Go's \<open><\<close> on the UTF-8 encodings. HTTP response bodies are raw bytes (\<open>len\<close> and slicing
  count bytes there) and are modelled as \<open>string\<close>.
\<close>

type_synonym rune = nat
type_synonym gostring = "rune list"
type_synonym bytes = string

definition str :: "string \<Rightarrow> gostring" where
  "str cs = map of_char cs"

text \<open>\<open>unicode.IsSpace\<close>: the Latin-1 spaces and the code points with property White_Space.\<close>

definition isSpace :: "rune \<Rightarrow> bool" where
  "isSpace r \<longleftrightarrow>
     r = 0x09 \<or> r = 0x0A \<or> r = 0x0B \<or> r = 0x0C \<or> r = 0x0D \<or> r = 0x20 \<or>
     r = 0x85 \<or> r = 0xA0 \<or> r = 0x1680 \<or> (0x2000 \<le> r \<and> r \<le> 0x200A) \<or>
     r = 0x2028 \<or> r = 0x2029 \<or> r = 0x202F \<or> r = 0x205F \<or> r = 0x3000"

definition TrimSpace :: "gostring \<Rightarrow> gostring" where
  "TrimSpace s = rev (dropWhile isSpace (rev (dropWhile isSpace s)))"

text \<open>\<open>strings.ReplaceAll(s, old, new)\<close> for a one-rune \<open>old\<close>, as both call sites have it.\<close>

definition ReplaceAll :: "gostring \<Rightarrow> rune \<Rightarrow> gostring \<Rightarrow> gostring" where
  "ReplaceAll s old new = concat (map (\<lambda>r. if r = old then new else [r]) s)"

text \<open>
  \<open>strings.NewReplacer(old1, new1, ...).Replace(s)\<close> where every \<open>old\<close> is one rune: each
  rune that has an entry is replaced by its entry's string, the first entry winning.
\<close>

definition Replace :: "(rune \<times> gostring) list \<Rightarrow> gostring \<Rightarrow> gostring" where
  "Replace tbl s = concat (map (\<lambda>r. case map_of tbl r of Some new \<Rightarrow> new | None \<Rightarrow> [r]) s)"

text \<open>
  \<open>strings.Fields\<close>: the maximal runs of non-space runes. \<open>cur\<close> is the field being read.
\<close>

fun fieldsLoop :: "gostring \<Rightarrow> gostring \<Rightarrow> gostring list" where
  "fieldsLoop cur [] = (if cur = [] then [] else [cur])"
| "fieldsLoop cur (r # rs) =
     (if isSpace r then (if cur = [] then fieldsLoop [] rs else cur # fieldsLoop [] rs)
      else fieldsLoop (cur @ [r]) rs)"

definition Fields :: "gostring \<Rightarrow> gostring list" where
  "Fields s = fieldsLoop [] s"

fun Join :: "gostring list \<Rightarrow> gostring \<Rightarrow> gostring" where
  "Join [] sep = []"
| "Join [a] sep = a"
| "Join (a # b # rest) sep = a @ sep @ Join (b # rest) sep"

section \<open>Domain structs\<close>

record Highlight =
  Text :: gostring
  Date :: gostring

record Book =
  Title :: gostring
  Author :: gostring
  Highlights :: "Highlight list"

section \<open>Markdown format\<close>

text \<open>The replacer table of \<open>sanitizeFilename\<close>, in the order of the source.\<close>

definition replacerTable :: "(rune \<times> gostring) list" where
  "replacerTable =
     [(0x2F, str ''-''),   \<comment> \<open>slash\<close>
      (0x5C, str ''-''),   \<comment> \<open>backslash\<close>
      (0x3A, str ''-''),   \<comment> \<open>colon\<close>
      (0x2A, str ''-''),   \<comment> \<open>asterisk\<close>
      (0x3F, []),          \<comment> \<open>question mark\<close>
      (0x22, []),          \<comment> \<open>double quote\<close>
      (0x3C, []),          \<comment> \<open>less than\<close>
      (0x3E, []),          \<comment> \<open>greater than\<close>
      (0x7C, str ''-'')]"  \<comment> \<open>vertical bar\<close>

definition sanitizeFilename :: "gostring \<Rightarrow> gostring" where
  "sanitizeFilename s0 =
     (let s1 = TrimSpace s0;
          s2 = Replace replacerTable s1;
          s3 = Join (Fields s2) (str ''-'')
      in if s3 = [] then str ''book'' else s3)"

text \<open>The characters \<open>/ \ : * ? " < > |\<close> that a file name must not contain.\<close>

definition hostile :: "rune set" where
  "hostile = {0x2F, 0x5C, 0x3A, 0x2A, 0x3F, 0x22, 0x3C, 0x3E, 0x7C}"

text \<open>
  The file system as far as \<open>Export\<close> touches it. \<open>filepath.Join(dir, name)\<close> with a name
  that has no separator and is not a dot name denotes the file \<open>name\<close> of directory \<open>dir\<close>;
  a path is that pair. Whether \<open>os.MkdirAll\<close>, \<open>os.Create\<close> and \<open>Close\<close> fail is decided
  by the environment. The source discards the results of \<open>fmt.Fprintf\<close>.
\<close>

type_synonym path = "gostring \<times> gostring"
type_synonym filesystem = "path \<rightharpoonup> gostring"

definition filepath_Join :: "gostring \<Rightarrow> gostring \<Rightarrow> path" where
  "filepath_Join dir name = (dir, name)"

record fs_env =
  mkdirall_fails :: "gostring \<Rightarrow> bool"
  create_fails :: "path \<Rightarrow> bool"
  close_fails :: "path \<Rightarrow> bool"

datatype md_error = EmptyDirectory | CreateDir | CreateFile path | CloseFile path

record MarkdownFormat =
  Dir :: gostring

definition nl :: rune where
  "nl = 0x0A"

definition os_Create :: "filesystem \<Rightarrow> path \<Rightarrow> filesystem" where
  "os_Create fs p = fs(p \<mapsto> [])"

definition Fprintf :: "filesystem \<Rightarrow> path \<Rightarrow> gostring \<Rightarrow> filesystem" where
  "Fprintf fs p out = (case fs p of None \<Rightarrow> fs | Some c \<Rightarrow> fs(p \<mapsto> c @ out))"

text \<open>One iteration of the loop over the highlights of a book.\<close>

definition writeHighlight :: "path \<Rightarrow> filesystem \<Rightarrow> Highlight \<Rightarrow> filesystem" where
  "writeHighlight p fs h =
     (let text = TrimSpace (Text h)
      in if text = [] then fs
         else Fprintf fs p (str ''> '' @ ReplaceAll text nl (str '' '') @ [nl, nl]))"

text \<open>One iteration of the loop over the books.\<close>

definition writeBook :: "fs_env \<Rightarrow> MarkdownFormat \<Rightarrow> Book \<Rightarrow> filesystem \<Rightarrow> md_error option \<times> filesystem" where
  "writeBook env m b fs =
     (let filename = sanitizeFilename (Title b);
          filename = (if Author b \<noteq> [] then sanitizeFilename (Title b @ str ''-'' @ Author b)
                      else filename);
          path = filepath_Join (Dir m) (filename @ str ''.md'')
      in if create_fails env path then (Some (CreateFile path), fs)
         else
           let fs1 = os_Create fs path;
               fs2 = (if Author b \<noteq> []
                      then Fprintf fs1 path
                             (str ''# '' @ Title b @ str '' ('' @ Author b @ str '')'' @ [nl, nl])
                      else Fprintf fs1 path (str ''# '' @ Title b @ [nl, nl]));
               fs3 = foldl (writeHighlight path) fs2 (Highlights b)
           in if close_fails env path then (Some (CloseFile path), fs3) else (None, fs3))"

fun exportBooks :: "fs_env \<Rightarrow> MarkdownFormat \<Rightarrow> Book list \<Rightarrow> filesystem \<Rightarrow> md_error option \<times> filesystem" where
  "exportBooks env m [] fs = (None, fs)"
| "exportBooks env m (b # bs) fs =
     (case writeBook env m b fs of
        (Some e, fs') \<Rightarrow> (Some e, fs')
      | (None, fs') \<Rightarrow> exportBooks env m bs fs')"

definition MarkdownExport :: "fs_env \<Rightarrow> MarkdownFormat \<Rightarrow> Book list \<Rightarrow> filesystem \<Rightarrow> md_error option \<times> filesystem" where
  "MarkdownExport env m books fs =
     (if Dir m = [] then (Some EmptyDirectory, fs)
      else if mkdirall_fails env (Dir m) then (Some CreateDir, fs)
      else exportBooks env m books fs)"

text \<open>
  The content of a book's file in the words of the specification: the heading, a blank
  line, then one block quote and a blank line for each highlight whose trimmed text is
  not empty, newlines inside it replaced by spaces.
\<close>

definition spec_heading :: "Book \<Rightarrow> gostring" where
  "spec_heading b =
     (if Author b = [] then str ''# '' @ Title b
      else str ''# '' @ Title b @ str '' ('' @ Author b @ str '')'')"

definition spec_quote :: "gostring \<Rightarrow> gostring" where
  "spec_quote t = str ''> '' @ map (\<lambda>r. if r = nl then 0x20 else r) t @ [nl] @ [nl]"

definition spec_content :: "Book \<Rightarrow> gostring" where
  "spec_content b =
     spec_heading b @ [nl] @ [nl] @
     concat (map spec_quote (filter (\<lambda>t. t \<noteq> []) (map (\<lambda>h. TrimSpace (Text h)) (Highlights b))))"

text \<open>The path \<open>Export\<close> computes for a book.\<close>

definition bookPath :: "MarkdownFormat \<Rightarrow> Book \<Rightarrow> path" where
  "bookPath m b =
     filepath_Join (Dir m)
       ((if Author b \<noteq> [] then sanitizeFilename (Title b @ str ''-'' @ Author b)
         else sanitizeFilename (Title b)) @ str ''.md'')"

text \<open>An environment in which no file operation fails.\<close>

definition fs_ok :: fs_env where
  "fs_ok = \<lparr>mkdirall_fails = (\<lambda>_. False), create_fails = (\<lambda>_. False), close_fails = (\<lambda>_. False)\<rparr>"

section \<open>Query and grouping engine\<close>

text \<open>
  The two tables the query reads, with the columns it names. A column value is \<open>None\<close>
  when it is NULL.
\<close>

record bookmark =
  b_VolumeID :: "gostring option"
  b_ContentID :: "gostring option"
  b_Text :: "gostring option"
  b_DateCreated :: "gostring option"
  b_StartContainerPath :: "gostring option"
  b_StartOffset :: "int option"

record content =
  c_ContentID :: "gostring option"
  c_Title :: "gostring option"
  c_Attribution :: "gostring option"

text \<open>A result row: \<open>c.Title, COALESCE(c.Attribution, ''), b.Text, b.DateCreated\<close>.\<close>

record row =
  col_Title :: "gostring option"
  col_Author :: gostring
  col_Text :: "gostring option"
  col_Date :: "gostring option"

text \<open>
  SQLite's \<open>TRIM(X)\<close> removes the space character U+0020 from both ends of \<open>X\<close>, and
  \<open>LENGTH(X)\<close> counts the characters before the first NUL.
\<close>

definition sql_TRIM :: "gostring \<Rightarrow> gostring" where
  "sql_TRIM x = rev (dropWhile (\<lambda>r. r = 0x20) (rev (dropWhile (\<lambda>r. r = 0x20) x)))"

definition sql_LENGTH :: "gostring \<Rightarrow> nat" where
  "sql_LENGTH x = length (takeWhile (\<lambda>r. r \<noteq> 0) x)"

text \<open>\<open>WHERE b.Text IS NOT NULL AND LENGTH(TRIM(b.Text)) > 0\<close>\<close>

definition whereClause :: "bookmark \<Rightarrow> bool" where
  "whereClause b = (case b_Text b of None \<Rightarrow> False | Some x \<Rightarrow> 0 < sql_LENGTH (sql_TRIM x))"

text \<open>\<open>FROM Bookmark b JOIN content c ON c.ContentID = b.VolumeID\<close>; NULL equals nothing.\<close>

definition joinOn :: "bookmark \<Rightarrow> content \<Rightarrow> bool" where
  "joinOn b c = (case (c_ContentID c, b_VolumeID b) of (Some x, Some y) \<Rightarrow> x = y | _ \<Rightarrow> False)"

definition joinRows :: "bookmark list \<Rightarrow> content list \<Rightarrow> (bookmark \<times> content) list" where
  "joinRows bs cs = concat (map (\<lambda>b. map (Pair b) (filter (joinOn b) cs)) bs)"

text \<open>
  \<open>ORDER BY c.Title ASC, b.ContentID ASC, CAST(SUBSTR(...) AS INTEGER) ASC, b.StartOffset ASC\<close>.
  The third key is an expression of SQLite built-ins over \<open>b.StartContainerPath\<close>; its
  value is the parameter \<open>idx\<close>. NULL sorts first, text is compared as \<open>memcmp\<close> does.
  SQLite leaves the order of rows with equal keys open; the model keeps their join order.
\<close>

type_synonym order_key = "gostring option \<times> gostring option \<times> int option \<times> int option"

definition orderKey :: "(gostring option \<Rightarrow> int option) \<Rightarrow> bookmark \<times> content \<Rightarrow> order_key" where
  "orderKey idx bc =
     (c_Title (snd bc), b_ContentID (fst bc), idx (b_StartContainerPath (fst bc)), b_StartOffset (fst bc))"

definition selectRow :: "bookmark \<times> content \<Rightarrow> row" where
  "selectRow bc =
     \<lparr>col_Title = c_Title (snd bc),
      col_Author = (case c_Attribution (snd bc) of None \<Rightarrow> [] | Some a \<Rightarrow> a),
      col_Text = b_Text (fst bc),
      col_Date = b_DateCreated (fst bc)\<rparr>"

definition baseQuery :: "(gostring option \<Rightarrow> int option) \<Rightarrow> bookmark list \<Rightarrow> content list \<Rightarrow> row list" where
  "baseQuery idx bs cs =
     map selectRow (sort_key (orderKey idx) (filter (\<lambda>bc. whereClause (fst bc)) (joinRows bs cs)))"

text \<open>The rows that \<open>db.Query\<close> delivers: \<open>baseQuery + " LIMIT ?"\<close> when \<open>limit > 0\<close>.\<close>

definition queryRows :: "(gostring option \<Rightarrow> int option) \<Rightarrow> bookmark list \<Rightarrow> content list \<Rightarrow> int \<Rightarrow> row list" where
  "queryRows idx bs cs limit =
     (if limit > 0 then take (nat limit) (baseQuery idx bs cs) else baseQuery idx bs cs)"

text \<open>
  \<open>rows.Scan(&title, &author, &text, &date)\<close> into four strings: a NULL column is an
  error, and the loop logs it and goes on to the next row.
\<close>

definition Scan :: "row \<Rightarrow> (gostring \<times> gostring \<times> gostring \<times> gostring) option" where
  "Scan r =
     (case col_Title r of None \<Rightarrow> None | Some title \<Rightarrow>
      (case col_Text r of None \<Rightarrow> None | Some text \<Rightarrow>
       (case col_Date r of None \<Rightarrow> None | Some date \<Rightarrow>
          Some (title, col_Author r, text, date))))"

text \<open>
  The body of the loop over the rows. The state is the map \<open>grouped\<close> and the slice
  \<open>order\<close>. The entry read in the last step was stored one line earlier; its \<open>None\<close>
  branch is not reached.
\<close>

type_synonym group_state = "(gostring \<rightharpoonup> Book) \<times> gostring list"

definition groupStep :: "group_state \<Rightarrow> row \<Rightarrow> group_state" where
  "groupStep st r =
     (case Scan r of
        None \<Rightarrow> st
      | Some (title, author, text, date) \<Rightarrow>
          let grouped = fst st; order = snd st;
              st1 = (if grouped title = None
                     then (grouped(title \<mapsto> \<lparr>Title = title, Author = author, Highlights = []\<rparr>),
                           order @ [title])
                     else (grouped, order))
          in (case fst st1 title of
                None \<Rightarrow> st1
              | Some b \<Rightarrow>
                  ((fst st1)(title \<mapsto> b\<lparr>Highlights := Highlights b @ [\<lparr>Text = text, Date = date\<rparr>]\<rparr>),
                   snd st1)))"

text \<open>
  After the loop: \<open>sort.Strings(order)\<close>, then one Book per title of \<open>order\<close>. Reading a
  title that has no entry would dereference a nil pointer; that is the result \<open>None\<close>.
\<close>

definition groupRows :: "row list \<Rightarrow> Book list option" where
  "groupRows rows =
     (let st = foldl groupStep (Map.empty, []) rows;
          order = sort (snd st)
      in those (map (fst st) order))"

datatype stat_result = NotExist | StatFailed | FileSize nat

datatype inspect_result = TableFound | TableMissing "gostring list" | InspectFailed

text \<open>
  What \<open>fetchBooks\<close> meets outside the program: the result of \<open>os.Stat\<close>, whether
  \<open>sql.Open\<close> fails, the result of looking for the table Bookmark (with the names of the
  tables found when it is missing), the two tables, the value of the third sort key,
  whether \<open>db.Query\<close> fails, and whether the iteration ends with an error.
\<close>

record kobo_db =
  os_Stat :: stat_result
  open_fails :: bool
  inspect :: inspect_result
  Bookmark :: "bookmark list"
  content_table :: "content list"
  containerIndex :: "gostring option \<Rightarrow> int option"
  query_fails :: bool
  rows_Err :: bool

datatype fetch_error =
    FileNotFound | StatError | OpenFailed | BookmarkTableNotFound "gostring list"
  | InspectSchemaFailed | QueryFailed | RowIterationError | NilDereference

text \<open>\<open>fetchBooks\<close>; the log lines, which is all \<open>debug\<close> changes, are left out.\<close>

definition fetchBooks :: "kobo_db \<Rightarrow> int \<Rightarrow> bool \<Rightarrow> fetch_error + Book list" where
  "fetchBooks db limit debug =
     (case os_Stat db of
        NotExist \<Rightarrow> Inl FileNotFound
      | StatFailed \<Rightarrow> Inl StatError
      | FileSize n \<Rightarrow>
          if open_fails db then Inl OpenFailed
          else (case inspect db of
                  TableMissing available \<Rightarrow> Inl (BookmarkTableNotFound available)
                | InspectFailed \<Rightarrow> Inl InspectSchemaFailed
                | TableFound \<Rightarrow>
                    if query_fails db then Inl QueryFailed
                    else
                      let rows = queryRows (containerIndex db) (Bookmark db) (content_table db) limit
                      in if rows_Err db then Inl RowIterationError
                         else (case groupRows rows of
                                 None \<Rightarrow> Inl NilDereference
                               | Some books \<Rightarrow> Inr books)))"

text \<open>The rows that the loop does not skip, as the four strings scanned from each.\<close>

definition scanned :: "row list \<Rightarrow> (gostring \<times> gostring \<times> gostring \<times> gostring) list" where
  "scanned rows = List.map_filter Scan rows"

definition rowTitle :: "gostring \<times> gostring \<times> gostring \<times> gostring \<Rightarrow> gostring" where
  "rowTitle r = fst r"

definition rowAuthor :: "gostring \<times> gostring \<times> gostring \<times> gostring \<Rightarrow> gostring" where
  "rowAuthor r = fst (snd r)"

definition rowHighlight :: "gostring \<times> gostring \<times> gostring \<times> gostring \<Rightarrow> Highlight" where
  "rowHighlight r = \<lparr>Text = fst (snd (snd r)), Date = snd (snd (snd r))\<rparr>"

text \<open>
  The Book of a title in the words of the specification: the author of the first row
  that bears the title, and the highlights of the rows that bear it, in their order.
\<close>

definition spec_author :: "(gostring \<times> gostring \<times> gostring \<times> gostring) list \<Rightarrow> gostring \<Rightarrow> gostring" where
  "spec_author rs t = (case find (\<lambda>r. rowTitle r = t) rs of None \<Rightarrow> [] | Some r \<Rightarrow> rowAuthor r)"

definition spec_book :: "(gostring \<times> gostring \<times> gostring \<times> gostring) list \<Rightarrow> gostring \<Rightarrow> Book" where
  "spec_book rs t =
     \<lparr>Title = t, Author = spec_author rs t,
      Highlights = map rowHighlight (filter (\<lambda>r. rowTitle r = t) rs)\<rparr>"

text \<open>A small database for the examples: one book, four bookmarks, one of them blank.\<close>

definition example_bookmark :: "string \<Rightarrow> string \<Rightarrow> int \<Rightarrow> bookmark" where
  "example_bookmark vol text off =
     \<lparr>b_VolumeID = Some (str vol), b_ContentID = Some (str vol), b_Text = Some (str text),
      b_DateCreated = Some (str ''d''), b_StartContainerPath = None, b_StartOffset = Some off\<rparr>"

definition example_db :: kobo_db where
  "example_db =
     \<lparr>os_Stat = FileSize 4096, open_fails = False, inspect = TableFound,
      Bookmark = [example_bookmark ''v1'' ''c'' 3, example_bookmark ''v1'' ''a'' 1,
                  example_bookmark ''v1'' '' '' 0, example_bookmark ''v1'' ''b'' 2],
      content_table = [\<lparr>c_ContentID = Some (str ''v1''), c_Title = Some (str ''T''), c_Attribution = None\<rparr>],
      containerIndex = (\<lambda>p. None), query_fails = False, rows_Err = False\<rparr>"

definition example_row :: "string \<Rightarrow> string \<Rightarrow> string \<Rightarrow> row" where
  "example_row title author text =
     \<lparr>col_Title = Some (str title), col_Author = str author, col_Text = Some (str text),
      col_Date = Some (str ''d'')\<rparr>"

text \<open>The same database with a single bookmark whose text is one tab character.\<close>

definition example_tab_db :: kobo_db where
  "example_tab_db =
     example_db\<lparr>Bookmark := [(example_bookmark ''v1'' [] 0)\<lparr>b_Text := Some [0x09]\<rparr>]\<rparr>"

section \<open>Notion format\<close>

text \<open>
  The JSON bodies the client sends, as the Go maps they are marshalled from. \<open>props\<close> is
  the map \<open>properties\<close> of the page payload; a property holds a title or a rich text.
\<close>

datatype propval = TitleValue gostring | RichTextValue gostring

datatype block = Quote gostring | Paragraph

datatype payload =
    NoPayload
  | QueryPayload gostring gostring
  | PagePayload gostring "(gostring \<times> propval) list"
  | ChildrenPayload "block list"

datatype http_method = GET | POST | PATCH

text \<open>
  A request as \<open>httpClient.Do\<close> receives it. The three headers are the same on every
  request of a client and are left out.
\<close>

record request =
  req_method :: http_method
  req_url :: gostring
  req_body :: payload

record response =
  StatusCode :: int
  Status :: bytes
  Body :: bytes

text \<open>
  The world outside the client: whether \<open>http.NewRequest\<close> rejects a URL, the answer
  of \<open>httpClient.Do\<close> to a request given the requests made before it (\<open>Inl\<close> is a
  transport error), and \<open>encoding/json\<close> decoding a body into the three anonymous structs
  of the source: the \<open>id\<close> of a page, the number of \<open>results\<close> of a query, and the
  \<open>properties\<close> of a database as pairs of name and type in the order the \<open>range\<close>
  loop visits them. \<open>None\<close> is a decoding error.
\<close>

record notion_env =
  NewRequest_fails :: "gostring \<Rightarrow> bool"
  Do :: "request list \<Rightarrow> request \<Rightarrow> unit + response"
  decodePage :: "bytes \<Rightarrow> gostring option"
  decodeQuery :: "bytes \<Rightarrow> nat option"
  decodeDatabase :: "bytes \<Rightarrow> (gostring \<times> gostring) list option"

record NotionClient =
  token :: gostring
  databaseID :: gostring
  titlePropName :: gostring
  resolvedTitle :: bool

definition NewNotionClient :: "gostring \<Rightarrow> gostring \<Rightarrow> NotionClient" where
  "NewNotionClient tok dbid =
     \<lparr>token = tok, databaseID = dbid, titlePropName = str ''Title'', resolvedTitle = False\<rparr>"

datatype request_error = BuildRequestFailed | TransportFailed

datatype notion_error =
    NilNotionClient
  | NotionExportError gostring notion_error
  | CheckExistingPage notion_error
  | BuildQueryRequest
  | PerformQuery
  | QueryAPIError bytes bytes
  | DecodeQueryResponse
  | PerformNotionRequest request_error
  | RetryNotionRequest request_error
  | CreatePageError bytes bytes
  | DecodePageCreateResponse
  | NoPageID
  | BuildAppendRequest
  | PerformAppendRequest
  | AppendError bytes bytes
  | ResolveRequestFailed request_error
  | FetchDatabaseFailed bytes
  | DecodeDatabaseResponse

text \<open>
  \<open>truncateForLog\<close>. \<open>len\<close> and the slices count bytes. Both call sites pass a positive
  constant for \<open>max\<close>, which is a natural number here.
\<close>

definition truncateForLog :: "bytes \<Rightarrow> nat \<Rightarrow> bytes" where
  "truncateForLog s maxlen =
     (if length s \<le> maxlen then s
      else if maxlen < 3 then take maxlen s
      else take (maxlen - 3) s @ ''...'')"

text \<open>
  Sending a request: the call of \<open>Do\<close> is recorded in the log of requests, whatever its
  outcome.
\<close>

definition send :: "notion_env \<Rightarrow> request list \<Rightarrow> request \<Rightarrow> (unit + response) \<times> request list" where
  "send env log rq = (Do env log rq, log @ [rq])"

definition databaseURL :: "NotionClient \<Rightarrow> gostring" where
  "databaseURL n = str ''https://api.notion.com/v1/databases/'' @ databaseID n"

definition queryURL :: "NotionClient \<Rightarrow> gostring" where
  "queryURL n = str ''https://api.notion.com/v1/databases/'' @ databaseID n @ str ''/query''"

definition pagesURL :: gostring where
  "pagesURL = str ''https://api.notion.com/v1/pages''"

definition childrenURL :: "gostring \<Rightarrow> gostring" where
  "childrenURL pageID = str ''https://api.notion.com/v1/blocks/'' @ pageID @ str ''/children''"

text \<open>
  \<open>resolveTitlePropertyName\<close>: the first property of type \<open>title\<close> that the loop meets
  ends the loop. \<open>resolvedTitle\<close> is set on the last line only, which the error returns
  do not reach.
\<close>

definition resolveTitlePropertyName ::
  "notion_env \<Rightarrow> NotionClient \<Rightarrow> request list \<Rightarrow> notion_error option \<times> NotionClient \<times> request list" where
  "resolveTitlePropertyName env n log =
     (if NewRequest_fails env (databaseURL n)
      then (Some (ResolveRequestFailed BuildRequestFailed), n, log)
      else
        (case send env log \<lparr>req_method = GET, req_url = databaseURL n, req_body = NoPayload\<rparr> of
           (Inl _, log1) \<Rightarrow> (Some (ResolveRequestFailed TransportFailed), n, log1)
         | (Inr resp, log1) \<Rightarrow>
             if StatusCode resp \<ge> 300 then (Some (FetchDatabaseFailed (Status resp)), n, log1)
             else
               (case decodeDatabase env (Body resp) of
                  None \<Rightarrow> (Some DecodeDatabaseResponse, n, log1)
                | Some properties \<Rightarrow>
                    let n1 = (case find (\<lambda>p. snd p = str ''title'') properties of
                                None \<Rightarrow> n
                              | Some p \<Rightarrow> if fst p \<noteq> str ''Title'' then n\<lparr>titlePropName := fst p\<rparr> else n)
                    in (None, n1\<lparr>resolvedTitle := True\<rparr>, log1))))"

text \<open>
  The two lines \<open>if !n.resolvedTitle { _ = n.resolveTitlePropertyName() }\<close> that open both
  \<open>EnsureBookPage\<close> and \<open>pageExistsByTitle\<close>; the error is discarded.
\<close>

definition resolveIfNeeded :: "notion_env \<Rightarrow> NotionClient \<Rightarrow> request list \<Rightarrow> NotionClient \<times> request list" where
  "resolveIfNeeded env n log =
     (if \<not> resolvedTitle n then snd (resolveTitlePropertyName env n log) else (n, log))"

definition pageExistsByTitle ::
  "notion_env \<Rightarrow> NotionClient \<Rightarrow> request list \<Rightarrow> gostring \<Rightarrow> (notion_error + bool) \<times> NotionClient \<times> request list" where
  "pageExistsByTitle env n0 log0 title =
     (let (n, log) = resolveIfNeeded env n0 log0
      in if NewRequest_fails env (queryURL n) then (Inl BuildQueryRequest, n, log)
         else
           (case send env log \<lparr>req_method = POST, req_url = queryURL n,
                                 req_body = QueryPayload (titlePropName n) title\<rparr> of
              (Inl _, log1) \<Rightarrow> (Inl PerformQuery, n, log1)
            | (Inr resp, log1) \<Rightarrow>
                if StatusCode resp \<ge> 300
                then (Inl (QueryAPIError (Status resp) (truncateForLog (Body resp) 200)), n, log1)
                else
                  (case decodeQuery env (Body resp) of
                     None \<Rightarrow> (Inl DecodeQueryResponse, n, log1)
                   | Some results \<Rightarrow> (Inr (results > 0), n, log1))))"

text \<open>The closure \<open>createReq\<close> of \<open>EnsureBookPage\<close>.\<close>

definition createReq ::
  "notion_env \<Rightarrow> request list \<Rightarrow> payload \<Rightarrow> (request_error + response) \<times> request list" where
  "createReq env log p =
     (if NewRequest_fails env pagesURL then (Inl BuildRequestFailed, log)
      else (case send env log \<lparr>req_method = POST, req_url = pagesURL, req_body = p\<rparr> of
              (Inl _, log1) \<Rightarrow> (Inl TransportFailed, log1)
            | (Inr resp, log1) \<Rightarrow> (Inr resp, log1)))"

text \<open>
  Lines 101 to 115 of \<open>EnsureBookPage\<close>: from the response that stands after the
  fallback to the page id.
\<close>

definition pageIDOf :: "notion_env \<Rightarrow> response \<Rightarrow> notion_error + gostring" where
  "pageIDOf env resp =
     (if StatusCode resp \<ge> 300
      then Inl (CreatePageError (Status resp) (truncateForLog (Body resp) 300))
      else (case decodePage env (Body resp) of
              None \<Rightarrow> Inl DecodePageCreateResponse
            | Some pageID \<Rightarrow> if pageID = [] then Inl NoPageID else Inr pageID))"

text \<open>
  Lines 68 to 71: the map \<open>props\<close>, with the title under the discovered name and, for a
  non-empty author, the rich text under \<open>Author\<close>.
\<close>

definition pageProps :: "NotionClient \<Rightarrow> gostring \<Rightarrow> gostring \<Rightarrow> (gostring \<times> propval) list" where
  "pageProps n notionTitle author =
     (let props = [(titlePropName n, TitleValue notionTitle)]
      in if author \<noteq> [] then AList.update (str ''Author'') (RichTextValue author) props
         else props)"

text \<open>
  Lines 72 to 115 of \<open>EnsureBookPage\<close>: the page is created, with one more attempt
  without the property Author when the answer is 400 and there is an author.
\<close>

definition createPage ::
  "notion_env \<Rightarrow> NotionClient \<Rightarrow> gostring \<Rightarrow> gostring \<Rightarrow> request list \<Rightarrow> (notion_error + gostring) \<times> request list" where
  "createPage env n notionTitle author log =
     (let props = pageProps n notionTitle author
      in (case createReq env log (PagePayload (databaseID n) props) of
            (Inl e, log1) \<Rightarrow> (Inl (PerformNotionRequest e), log1)
          | (Inr resp, log1) \<Rightarrow>
              if StatusCode resp = 400 \<and> author \<noteq> []
              then
                (case createReq env log1 (PagePayload (databaseID n) (AList.delete (str ''Author'') props)) of
                   (Inl e, log2) \<Rightarrow> (Inl (RetryNotionRequest e), log2)
                 | (Inr resp2, log2) \<Rightarrow> (pageIDOf env resp2, log2))
              else (pageIDOf env resp, log1)))"

text \<open>Lines 116 to 126: a quote for each highlight, a blank paragraph after all but the last.\<close>

definition buildBlocks :: "gostring list \<Rightarrow> block list" where
  "buildBlocks highlights =
     concat (map (\<lambda>(i, h). Quote h # (if int i < int (length highlights) - 1 then [Paragraph] else []))
               (enumerate 0 highlights))"

text \<open>Lines 127 to 155: the loop that appends the blocks, a hundred at a time.\<close>

function appendLoop ::
  "notion_env \<Rightarrow> gostring \<Rightarrow> block list \<Rightarrow> nat \<Rightarrow> request list \<Rightarrow> notion_error option \<times> request list" where
  "appendLoop env pageID blocks i log =
     (if i < length blocks then
        let stop = (if i + 100 > length blocks then length blocks else i + 100);
            batch = take (stop - i) (drop i blocks)
        in if NewRequest_fails env (childrenURL pageID) then (Some BuildAppendRequest, log)
           else
             (case send env log \<lparr>req_method = PATCH, req_url = childrenURL pageID,
                                   req_body = ChildrenPayload batch\<rparr> of
                (Inl _, log1) \<Rightarrow> (Some PerformAppendRequest, log1)
              | (Inr resp, log1) \<Rightarrow>
                  if StatusCode resp \<ge> 300
                  then (Some (AppendError (Status resp) (truncateForLog (Body resp) 300)), log1)
                  else appendLoop env pageID blocks (i + 100) log1)
      else (None, log))"
  by pat_completeness auto
termination
  by (relation "measure (\<lambda>(env, pageID, blocks, i, log). length blocks - i)") auto

declare appendLoop.simps [simp del]

definition notionTitle :: "gostring \<Rightarrow> gostring \<Rightarrow> gostring" where
  "notionTitle title author =
     (if author \<noteq> [] then title @ str '' ('' @ author @ str '')'' else title)"

text \<open>\<open>EnsureBookPage\<close>. The receiver is a pointer: \<open>None\<close> is nil.\<close>

definition EnsureBookPage ::
  "notion_env \<Rightarrow> NotionClient option \<Rightarrow> gostring \<Rightarrow> gostring \<Rightarrow> gostring list \<Rightarrow> request list \<Rightarrow>
     notion_error option \<times> NotionClient option \<times> request list" where
  "EnsureBookPage env client title author highlights log0 =
     (case client of
        None \<Rightarrow> (None, None, log0)
      | Some n0 \<Rightarrow>
          let (n1, log1) = resolveIfNeeded env n0 log0
          in (case pageExistsByTitle env n1 log1 (notionTitle title author) of
                (Inl e, n, log2) \<Rightarrow> (Some (CheckExistingPage e), Some n, log2)
              | (Inr exists, n, log2) \<Rightarrow>
                  if exists then (None, Some n, log2)
                  else
                    (case createPage env n (notionTitle title author) author log2 of
                       (Inl e, log3) \<Rightarrow> (Some e, Some n, log3)
                     | (Inr pageID, log3) \<Rightarrow>
                         (case appendLoop env pageID (buildBlocks highlights) 0 log3 of
                            (r, log4) \<Rightarrow> (r, Some n, log4)))))"

text \<open>\<open>NotionFormat.Export\<close>: the first error ends the loop over the books.\<close>

fun notionExportLoop ::
  "notion_env \<Rightarrow> NotionClient option \<Rightarrow> Book list \<Rightarrow> request list \<Rightarrow>
     notion_error option \<times> NotionClient option \<times> request list" where
  "notionExportLoop env client [] log = (None, client, log)"
| "notionExportLoop env client (b # bs) log =
     (case EnsureBookPage env client (Title b) (Author b) (map Text (Highlights b)) log of
        (Some e, client1, log1) \<Rightarrow> (Some (NotionExportError (Title b) e), client1, log1)
      | (None, client1, log1) \<Rightarrow> notionExportLoop env client1 bs log1)"


text \<open>The request that \<open>createReq\<close> sends for the properties \<open>props\<close>.\<close>

definition pageRequest :: "NotionClient \<Rightarrow> (gostring \<times> propval) list \<Rightarrow> request" where
  "pageRequest n props = \<lparr>req_method = POST, req_url = pagesURL, req_body = PagePayload (databaseID n) props\<rparr>"

text \<open>
  The blocks in the words of the specification: a quote for each highlight and a blank
  paragraph between two consecutive quotes.
\<close>

fun spec_blocks :: "gostring list \<Rightarrow> block list" where
  "spec_blocks [] = []"
| "spec_blocks [h] = [Quote h]"
| "spec_blocks (h # hs) = Quote h # Paragraph # spec_blocks hs"

text \<open>Reading the log: the kinds of requests, and the blocks a request carries.\<close>

definition isWrite :: "request \<Rightarrow> bool" where
  "isWrite rq = (case req_body rq of PagePayload d ps \<Rightarrow> True | ChildrenPayload bs \<Rightarrow> True | _ \<Rightarrow> False)"

definition isSchemaFetch :: "request \<Rightarrow> bool" where
  "isSchemaFetch rq = (req_method rq = GET)"

definition isCreate :: "request \<Rightarrow> bool" where
  "isCreate rq = (case req_body rq of PagePayload d ps \<Rightarrow> True | _ \<Rightarrow> False)"

definition isAppend :: "request \<Rightarrow> bool" where
  "isAppend rq = (case req_body rq of ChildrenPayload bs \<Rightarrow> True | _ \<Rightarrow> False)"

definition blocksOf :: "request \<Rightarrow> block list" where
  "blocksOf rq = (case req_body rq of ChildrenPayload bs \<Rightarrow> bs | _ \<Rightarrow> [])"

text \<open>
  A service for the examples. It answers the schema request with the status \<open>schema\<close>,
  says that no page exists (or that one does, when \<open>found\<close>), answers a create request
  that has a property Author with the status \<open>withAuthor\<close>, and accepts everything else.
\<close>

definition hasAuthor :: "payload \<Rightarrow> bool" where
  "hasAuthor p = (case p of PagePayload d ps \<Rightarrow> map_of ps (str ''Author'') \<noteq> None | _ \<Rightarrow> False)"

definition example_Do :: "int \<Rightarrow> bool \<Rightarrow> int \<Rightarrow> request list \<Rightarrow> request \<Rightarrow> unit + response" where
  "example_Do schema found withAuthor log rq =
     (case req_body rq of
        NoPayload \<Rightarrow> Inr \<lparr>StatusCode = schema, Status = ''schema'', Body = ''db''\<rparr>
      | QueryPayload p t \<Rightarrow> Inr \<lparr>StatusCode = 200, Status = ''200 OK'', Body = (if found then ''1'' else ''0'')\<rparr>
      | PagePayload d ps \<Rightarrow>
          if hasAuthor (req_body rq)
          then Inr \<lparr>StatusCode = withAuthor, Status = ''create'', Body = ''page''\<rparr>
          else Inr \<lparr>StatusCode = 200, Status = ''200 OK'', Body = ''page''\<rparr>
      | ChildrenPayload bs \<Rightarrow> Inr \<lparr>StatusCode = 200, Status = ''200 OK'', Body = []\<rparr>)"

definition example_env :: "int \<Rightarrow> bool \<Rightarrow> int \<Rightarrow> notion_env" where
  "example_env schema found withAuthor =
     \<lparr>NewRequest_fails = (\<lambda>u. False),
      Do = example_Do schema found withAuthor,
      decodePage = (\<lambda>b. Some (str ''p1'')),
      decodeQuery = (\<lambda>b. if b = ''1'' then Some 1 else Some 0),
      decodeDatabase = (\<lambda>b. Some [(str ''Name'', str ''title''), (str ''Author'', str ''rich_text'')])\<rparr>"

section \<open>The file-name sanitizer\<close>

lemma fieldsLoop_nospace:
  "\<forall>r\<in>set s. \<not> isSpace r \<Longrightarrow> fieldsLoop cur s = (if cur @ s = [] then [] else [cur @ s])"
  by (induction s arbitrary: cur) auto

lemma fieldsLoop_fields:
  "\<forall>r\<in>set cur. \<not> isSpace r \<Longrightarrow> f \<in> set (fieldsLoop cur s) \<Longrightarrow>
     f \<noteq> [] \<and> (\<forall>r\<in>set f. \<not> isSpace r) \<and> set f \<subseteq> set cur \<union> set s"
proof (induction s arbitrary: cur)
  case Nil
  then show ?case by (auto split: if_splits)
next
  case (Cons a s)
  show ?case
  proof (cases "isSpace a")
    case True
    with Cons.prems have "f = cur \<and> cur \<noteq> [] \<or> f \<in> set (fieldsLoop [] s)"
      by (auto split: if_splits)
    then show ?thesis
    proof
      assume "f = cur \<and> cur \<noteq> []"
      with Cons.prems show ?thesis by auto
    next
      assume "f \<in> set (fieldsLoop [] s)"
      from Cons.IH [of "[]", OF _ this] show ?thesis by auto
    qed
  next
    case False
    with Cons.prems have m: "f \<in> set (fieldsLoop (cur @ [a]) s)" by simp
    from False Cons.prems have "\<forall>r\<in>set (cur @ [a]). \<not> isSpace r" by auto
    from Cons.IH [OF this m] show ?thesis by auto
  qed
qed

lemma fieldsLoop_allspace:
  "\<forall>r\<in>set s. isSpace r \<Longrightarrow> fieldsLoop [] s = []"
  by (induction s) auto

lemma set_Join:
  "set (Join fs sep) \<subseteq> \<Union> (set ` set fs) \<union> set sep"
  by (induction fs sep rule: Join.induct) auto

lemma Join_nonempty:
  "fs \<noteq> [] \<Longrightarrow> \<forall>f\<in>set fs. f \<noteq> [] \<Longrightarrow> Join fs sep \<noteq> []"
  by (induction fs sep rule: Join.induct) auto

lemma set_Replace:
  "set (Replace tbl s) \<subseteq> (set s - fst ` set tbl) \<union> \<Union> (set ` snd ` set tbl)"
proof (induction s)
  case Nil
  show ?case by (simp add: Replace_def)
next
  case (Cons a s)
  have step: "Replace tbl (a # s) = (case map_of tbl a of Some new \<Rightarrow> new | None \<Rightarrow> [a]) @ Replace tbl s"
    by (simp add: Replace_def)
  show ?case
  proof (cases "map_of tbl a")
    case None
    then have "a \<notin> fst ` set tbl" by (simp add: map_of_eq_None_iff)
    with None step Cons show ?thesis by auto
  next
    case (Some new)
    then have "(a, new) \<in> set tbl" by (rule map_of_SomeD)
    then have "set new \<subseteq> \<Union> (set ` snd ` set tbl)" by force
    with Some step Cons show ?thesis by auto
  qed
qed

lemma Replace_id:
  "set s \<inter> fst ` set tbl = {} \<Longrightarrow> Replace tbl s = s"
proof (induction s)
  case Nil
  show ?case by (simp add: Replace_def)
next
  case (Cons a s)
  then have "a \<notin> fst ` set tbl" by auto
  then have "map_of tbl a = None" by (simp add: map_of_eq_None_iff)
  moreover have "Replace tbl s = s" using Cons by auto
  ultimately show ?case by (simp add: Replace_def)
qed

lemma dropWhile_none: "\<forall>r\<in>set s. \<not> P r \<Longrightarrow> dropWhile P s = s"
  by (cases s) auto

lemma TrimSpace_id:
  "\<forall>r\<in>set s. \<not> isSpace r \<Longrightarrow> TrimSpace s = s"
  by (simp add: TrimSpace_def dropWhile_none)

lemma TrimSpace_allspace:
  "\<forall>r\<in>set s. isSpace r \<Longrightarrow> TrimSpace s = []"
proof -
  assume "\<forall>r\<in>set s. isSpace r"
  then have e: "dropWhile isSpace s = []" by (metis dropWhile_eq_Nil_conv)
  show ?thesis unfolding TrimSpace_def e by simp
qed

lemma hostile_table: "fst ` set replacerTable = hostile"
  by (simp add: replacerTable_def hostile_def)

lemma table_new: "\<Union> (set ` snd ` set replacerTable) = {0x2D}"
  by (simp add: replacerTable_def str_def)

lemma dash_ok: "\<not> isSpace 0x2D" "0x2D \<notin> hostile"
  by (simp_all add: isSpace_def hostile_def)

lemma sanitize_book: "sanitizeFilename (str ''book'') = str ''book''"
  by (simp add: sanitizeFilename_def str_def TrimSpace_def Replace_def replacerTable_def Fields_def isSpace_def)

lemma sanitize_clean:
  "sanitizeFilename s \<noteq> [] \<and> (\<forall>r\<in>set (sanitizeFilename s). \<not> isSpace r \<and> r \<notin> hostile)"
proof -
  define s2 where "s2 = Replace replacerTable (TrimSpace s)"
  define s3 where "s3 = Join (Fields s2) (str ''-'')"
  have san: "sanitizeFilename s = (if s3 = [] then str ''book'' else s3)"
    by (simp add: sanitizeFilename_def s2_def s3_def Let_def)
  have book: "\<forall>r\<in>set (str ''book''). \<not> isSpace r \<and> r \<notin> hostile"
    by (simp add: str_def isSpace_def hostile_def)
  have s2: "set s2 \<inter> hostile \<subseteq> {}"
    using set_Replace [of replacerTable "TrimSpace s"] dash_ok
    unfolding s2_def hostile_table table_new by auto
  have fld: "\<And>f. f \<in> set (Fields s2) \<Longrightarrow> (\<forall>r\<in>set f. \<not> isSpace r) \<and> set f \<subseteq> set s2"
    using fieldsLoop_fields [of "[]" _ s2] unfolding Fields_def by auto
  have "set s3 \<subseteq> \<Union> (set ` set (Fields s2)) \<union> {0x2D}"
    using set_Join [of "Fields s2" "str ''-''"] unfolding s3_def by (simp add: str_def)
  then have "\<forall>r\<in>set s3. \<not> isSpace r \<and> r \<notin> hostile"
    using fld s2 dash_ok by blast
  with san book show ?thesis by (auto simp: str_def)
qed

lemma sanitize_fix:
  assumes "s \<noteq> []" and "\<forall>r\<in>set s. \<not> isSpace r \<and> r \<notin> hostile"
  shows "sanitizeFilename s = s"
proof -
  have t: "TrimSpace s = s" using assms by (simp add: TrimSpace_id)
  have "set s \<inter> fst ` set replacerTable = {}" using assms unfolding hostile_table by auto
  then have r: "Replace replacerTable s = s" by (rule Replace_id)
  have f: "Fields s = [s]" using assms fieldsLoop_nospace [of s "[]"] by (simp add: Fields_def)
  show ?thesis using assms(1) by (simp add: sanitizeFilename_def t r f)
qed

lemma sanitize_blank:
  assumes "\<forall>r\<in>set s. isSpace r"
  shows "sanitizeFilename s = str ''book''"
proof -
  have "TrimSpace s = []" using assms by (rule TrimSpace_allspace)
  then show ?thesis by (simp add: sanitizeFilename_def Replace_def Fields_def)
qed

text \<open>
  C6: \<open>sanitizeFilename\<close> is idempotent, its result contains none of the characters
  \<open>/ \ : * ? " < > |\<close>, and an input that is empty or consists of white space only
  gives the placeholder name \<open>book\<close>.
\<close>

theorem sanitizeFilename_idempotent_clean:
  "sanitizeFilename (sanitizeFilename s) = sanitizeFilename s \<and>
   set (sanitizeFilename s) \<inter> hostile = {} \<and>
   ((\<forall>r\<in>set s. isSpace r) \<longrightarrow> sanitizeFilename s = str ''book'')"
proof (intro conjI impI)
  show "sanitizeFilename (sanitizeFilename s) = sanitizeFilename s"
    using sanitize_clean [of s] by (intro sanitize_fix) auto
  show "set (sanitizeFilename s) \<inter> hostile = {}"
    using sanitize_clean [of s] by auto
  show "sanitizeFilename s = str ''book''" if "\<forall>r\<in>set s. isSpace r"
    using that by (rule sanitize_blank)
qed

theorem sanitizeFilename_idempotent_clean_witness:
  "list_all isSpace (str '' \<newline> '') \<and> sanitizeFilename (str '' \<newline> '') = str ''book'' \<and>
   sanitizeFilename [] = str ''book'' \<and>
   sanitizeFilename (sanitizeFilename (str ''a/b: c?'')) = sanitizeFilename (str ''a/b: c?'')"
proof -
  have h: "\<forall>r\<in>set (str '' \<newline> ''). isSpace r" by (simp add: str_def isSpace_def)
  then have "list_all isSpace (str '' \<newline> '')" by (simp add: list_all_iff)
  then show ?thesis
    using h sanitizeFilename_idempotent_clean [of "str '' \<newline> ''"]
      sanitizeFilename_idempotent_clean [of "[]"]
      sanitizeFilename_idempotent_clean [of "str ''a/b: c?''"]
    by simp
qed

section \<open>The Markdown exporter\<close>

lemma ReplaceAll_nl: "ReplaceAll t nl (str '' '') = map (\<lambda>r. if r = nl then 0x20 else r) t"
  by (induction t) (simp_all add: ReplaceAll_def str_def)

lemma foldl_writeHighlight:
  "fs p = Some c \<Longrightarrow>
   foldl (writeHighlight p) fs hs =
     fs(p \<mapsto> c @ concat (map spec_quote (filter (\<lambda>t. t \<noteq> []) (map (\<lambda>h. TrimSpace (Text h)) hs))))"
proof (induction hs arbitrary: fs c)
  case Nil
  then show ?case by (simp add: fun_upd_idem)
next
  case (Cons h hs)
  show ?case
  proof (cases "TrimSpace (Text h) = []")
    case True
    then have "writeHighlight p fs h = fs" by (simp add: writeHighlight_def)
    with Cons True show ?thesis by simp
  next
    case False
    let ?q = "spec_quote (TrimSpace (Text h))"
    have w: "writeHighlight p fs h = fs(p \<mapsto> c @ ?q)"
      using False Cons.prems
      by (simp add: writeHighlight_def Fprintf_def spec_quote_def ReplaceAll_nl)
    have "(fs(p \<mapsto> c @ ?q)) p = Some (c @ ?q)" by simp
    from Cons.IH [of "fs(p \<mapsto> c @ ?q)" "c @ ?q", OF this]
    have "foldl (writeHighlight p) (fs(p \<mapsto> c @ ?q)) hs =
            fs(p \<mapsto> (c @ ?q) @ concat (map spec_quote (filter (\<lambda>t. t \<noteq> []) (map (\<lambda>h. TrimSpace (Text h)) hs))))"
      by (simp only: fun_upd_upd)
    moreover have "foldl (writeHighlight p) fs (h # hs) = foldl (writeHighlight p) (fs(p \<mapsto> c @ ?q)) hs"
      by (simp only: foldl_Cons w)
    ultimately show ?thesis using False by simp
  qed
qed

lemma writeBook_path:
  "writeBook env m b fs = (r, fs') \<Longrightarrow> r = None \<or> r = Some (CloseFile (bookPath m b)) \<Longrightarrow>
   fs' = fs(bookPath m b \<mapsto> spec_content b)"
proof -
  assume a: "writeBook env m b fs = (r, fs')" and r: "r = None \<or> r = Some (CloseFile (bookPath m b))"
  let ?p = "bookPath m b"
  have nc: "\<not> create_fails env ?p"
    using a r by (auto simp: writeBook_def bookPath_def Let_def split: if_splits)
  let ?h = "spec_heading b @ [nl] @ [nl]"
  let ?fs2 = "fs(?p \<mapsto> ?h)"
  have fs': "fs' = foldl (writeHighlight ?p) ?fs2 (Highlights b)"
    using a nc
    by (auto simp: writeBook_def bookPath_def Let_def os_Create_def Fprintf_def spec_heading_def
        split: if_splits)
  have "?fs2 ?p = Some ?h" by simp
  from foldl_writeHighlight [of ?fs2 ?p ?h, OF this] fs' show ?thesis
    by (simp add: spec_content_def)
qed

lemma example_content:
  "spec_content \<lparr>Title = str ''T'', Author = str ''A'',
      Highlights = [\<lparr>Text = str ''x'', Date = d1\<rparr>, \<lparr>Text = str ''y'', Date = d2\<rparr>]\<rparr> =
     str ''# T (A)\<newline>\<newline>> x\<newline>\<newline>> y\<newline>\<newline>''"
  by (simp add: spec_content_def spec_heading_def spec_quote_def str_def nl_def TrimSpace_def isSpace_def)

lemma example_path:
  "bookPath \<lparr>Dir = str ''out''\<rparr> \<lparr>Title = str ''T'', Author = str ''A'', Highlights = hs\<rparr> = (str ''out'', str ''T-A.md'')"
  by (simp add: bookPath_def sanitizeFilename_def filepath_Join_def str_def TrimSpace_def isSpace_def
      Replace_def replacerTable_def Fields_def)


lemma exportBooks_ok_one:
  "exportBooks fs_ok m [b] fs = (None, fs(bookPath m b \<mapsto> spec_content b))"
proof -
  obtain r fs' where w: "writeBook fs_ok m b fs = (r, fs')" by (cases "writeBook fs_ok m b fs")
  then have "r = None"
    by (auto simp: writeBook_def fs_ok_def Let_def split: if_splits)
  with w writeBook_path [OF w] show ?thesis by simp
qed

lemma exportBooks_ok_two:
  "exportBooks fs_ok m [b1, b2] fs =
     (None, fs(bookPath m b1 \<mapsto> spec_content b1, bookPath m b2 \<mapsto> spec_content b2))"
proof -
  obtain r fs' where w: "writeBook fs_ok m b1 fs = (r, fs')" by (cases "writeBook fs_ok m b1 fs")
  then have "r = None"
    by (auto simp: writeBook_def fs_ok_def Let_def split: if_splits)
  with w writeBook_path [OF w] exportBooks_ok_one [of m b2 fs'] show ?thesis by simp
qed

lemma writeBook_result:
  "writeBook env m b fs = (r, fs') \<Longrightarrow>
   (r = Some (CreateFile (bookPath m b)) \<and> fs' = fs) \<or>
   ((r = None \<or> r = Some (CloseFile (bookPath m b))) \<and> fs' = fs(bookPath m b \<mapsto> spec_content b))"
proof -
  assume a: "writeBook env m b fs = (r, fs')"
  show ?thesis
  proof (cases "create_fails env (bookPath m b)")
    case True
    with a show ?thesis by (auto simp: writeBook_def bookPath_def Let_def split: if_splits)
  next
    case False
    with a have "r = None \<or> r = Some (CloseFile (bookPath m b))"
      by (auto simp: writeBook_def bookPath_def Let_def split: if_splits)
    with writeBook_path [OF a] show ?thesis by blast
  qed
qed

lemma exportBooks_frame:
  "exportBooks env m books fs = (r, fs') \<Longrightarrow> p \<notin> bookPath m ` set books \<Longrightarrow> fs' p = fs p"
proof (induction books arbitrary: fs)
  case Nil
  then show ?case by simp
next
  case (Cons b bs)
  obtain r1 fs1 where w: "writeBook env m b fs = (r1, fs1)" by (cases "writeBook env m b fs")
  from writeBook_result [OF w] Cons.prems(2) have f1: "fs1 p = fs p" by auto
  show ?case
  proof (cases r1)
    case None
    with Cons.prems(1) w have "exportBooks env m bs fs1 = (r, fs')" by simp
    from Cons.IH [OF this] Cons.prems(2) f1 show ?thesis by simp
  next
    case (Some e)
    with Cons.prems(1) w have "fs' = fs1" by simp
    with f1 show ?thesis by simp
  qed
qed

lemma exportBooks_content:
  "exportBooks env m books fs = (None, fs') \<Longrightarrow> distinct (map (bookPath m) books) \<Longrightarrow>
   b \<in> set books \<Longrightarrow> fs' (bookPath m b) = Some (spec_content b)"
proof (induction books arbitrary: fs)
  case Nil
  then show ?case by simp
next
  case (Cons b0 bs)
  obtain r1 fs1 where w: "writeBook env m b0 fs = (r1, fs1)" by (cases "writeBook env m b0 fs")
  with Cons.prems(1) have r1: "r1 = None" and rest: "exportBooks env m bs fs1 = (None, fs')"
    by (auto split: option.splits)
  from writeBook_path [OF w] r1 have fs1: "fs1 = fs(bookPath m b0 \<mapsto> spec_content b0)" by simp
  show ?case
  proof (cases "b \<in> set bs")
    case True
    from Cons.IH [OF rest _ True] Cons.prems(2) show ?thesis by simp
  next
    case False
    with Cons.prems(3) have b: "b = b0" by simp
    from Cons.prems(2) have "bookPath m b0 \<notin> bookPath m ` set bs" by simp
    from exportBooks_frame [OF rest this] show ?thesis by (simp add: b fs1)
  qed
qed

text \<open>
  C5: the file that \<open>Export\<close> writes for a book holds the heading \<open># title (author)\<close>, or
  \<open># title\<close> when the author is empty, a blank line, and then \<open>> text\<close> and a blank line
  for each highlight whose trimmed text is not empty, its newlines replaced by spaces;
  for the book T by A with the highlights x and y the file is
  \<open># T (A)\n\n> x\n\n> y\n\n\<close>. After an export without error every book whose path no
  other book of the export shares has its file with this content.
\<close>

theorem markdown_file_content:
  "(writeBook env m b fs = (None, fs') \<longrightarrow> fs' (bookPath m b) = Some (spec_content b)) \<and>
   (MarkdownExport env m books fs = (None, fs') \<and> distinct (map (bookPath m) books) \<longrightarrow>
      (\<forall>b\<in>set books. fs' (bookPath m b) = Some (spec_content b))) \<and>
   MarkdownExport fs_ok \<lparr>Dir = str ''out''\<rparr>
     [\<lparr>Title = str ''T'', Author = str ''A'',
       Highlights = [\<lparr>Text = str ''x'', Date = d1\<rparr>, \<lparr>Text = str ''y'', Date = d2\<rparr>]\<rparr>] Map.empty =
     (None, [(str ''out'', str ''T-A.md'') \<mapsto>
               str ''# T (A)\<newline>\<newline>> x\<newline>\<newline>> y\<newline>\<newline>'']) \<and>
   MarkdownExport fs_ok \<lparr>Dir = str ''out''\<rparr>
     [\<lparr>Title = str ''T'', Author = [],
       Highlights = [\<lparr>Text = str ''x'', Date = d1\<rparr>, \<lparr>Text = str '' '', Date = d2\<rparr>]\<rparr>] Map.empty =
     (None, [(str ''out'', str ''T.md'') \<mapsto> str ''# T\<newline>\<newline>> x\<newline>\<newline>''])"
proof (intro conjI impI)
  assume "writeBook env m b fs = (None, fs')"
  from writeBook_path [OF this] show "fs' (bookPath m b) = Some (spec_content b)" by simp
next
  assume a: "MarkdownExport env m books fs = (None, fs') \<and> distinct (map (bookPath m) books)"
  then have "exportBooks env m books fs = (None, fs')"
    by (auto simp: MarkdownExport_def split: if_splits)
  with a show "\<forall>b\<in>set books. fs' (bookPath m b) = Some (spec_content b)"
    by (auto intro: exportBooks_content)
next
  let ?b = "\<lparr>Title = str ''T'', Author = str ''A'',
       Highlights = [\<lparr>Text = str ''x'', Date = d1\<rparr>, \<lparr>Text = str ''y'', Date = d2\<rparr>]\<rparr>"
  have d: "Dir \<lparr>Dir = str ''out''\<rparr> \<noteq> []" by (simp add: str_def)
  show "MarkdownExport fs_ok \<lparr>Dir = str ''out''\<rparr> [?b] Map.empty =
     (None, [(str ''out'', str ''T-A.md'') \<mapsto>
               str ''# T (A)\<newline>\<newline>> x\<newline>\<newline>> y\<newline>\<newline>''])"
    unfolding MarkdownExport_def exportBooks_ok_one example_content example_path
    using d by (simp add: fs_ok_def)
next
  let ?b = "\<lparr>Title = str ''T'', Author = [],
       Highlights = [\<lparr>Text = str ''x'', Date = d1\<rparr>, \<lparr>Text = str '' '', Date = d2\<rparr>]\<rparr>"
  have d: "Dir \<lparr>Dir = str ''out''\<rparr> \<noteq> []" by (simp add: str_def)
  have c: "spec_content ?b = str ''# T\<newline>\<newline>> x\<newline>\<newline>''"
    by (simp add: spec_content_def spec_heading_def spec_quote_def str_def nl_def TrimSpace_def isSpace_def)
  have p: "bookPath \<lparr>Dir = str ''out''\<rparr> ?b = (str ''out'', str ''T.md'')"
    by (simp add: bookPath_def sanitizeFilename_def filepath_Join_def str_def TrimSpace_def isSpace_def
        Replace_def replacerTable_def Fields_def)
  show "MarkdownExport fs_ok \<lparr>Dir = str ''out''\<rparr> [?b] Map.empty =
     (None, [(str ''out'', str ''T.md'') \<mapsto> str ''# T\<newline>\<newline>> x\<newline>\<newline>''])"
    unfolding MarkdownExport_def exportBooks_ok_one c p
    using d by (simp add: fs_ok_def)
qed

theorem markdown_file_content_witness:
  "fst (writeBook fs_ok \<lparr>Dir = str ''out''\<rparr>
          \<lparr>Title = str ''T'', Author = str ''A'', Highlights = [\<lparr>Text = str ''a\<newline>b'', Date = []\<rparr>]\<rparr>
          Map.empty) = None \<and>
   snd (writeBook fs_ok \<lparr>Dir = str ''out''\<rparr>
          \<lparr>Title = str ''T'', Author = str ''A'', Highlights = [\<lparr>Text = str ''a\<newline>b'', Date = []\<rparr>]\<rparr>
          Map.empty) (str ''out'', str ''T-A.md'') = Some (str ''# T (A)\<newline>\<newline>> a b\<newline>\<newline>'')"
proof -
  let ?m = "\<lparr>Dir = str ''out''\<rparr>"
  let ?b = "\<lparr>Title = str ''T'', Author = str ''A'', Highlights = [\<lparr>Text = str ''a\<newline>b'', Date = []\<rparr>]\<rparr>"
  obtain r fs' where w: "writeBook fs_ok ?m ?b Map.empty = (r, fs')"
    by (cases "writeBook fs_ok ?m ?b Map.empty")
  then have r: "r = None"
    by (auto simp: writeBook_def fs_ok_def Let_def split: if_splits)
  have c: "spec_content ?b = str ''# T (A)\<newline>\<newline>> a b\<newline>\<newline>''"
    by (simp add: spec_content_def spec_heading_def spec_quote_def str_def nl_def TrimSpace_def isSpace_def)
  from markdown_file_content [of fs_ok ?m ?b Map.empty fs'] w r
  have "fs' (bookPath ?m ?b) = Some (spec_content ?b)" by simp
  with w r show ?thesis unfolding c example_path by simp
qed

text \<open>
  C10: \<open>sanitizeFilename\<close> is not injective. The titles \<open>a/b\<close> and \<open>a:b\<close>, and the titles
  \<open>a b\<close> and \<open>a  b\<close>, get the same file name; \<open>Export\<close> computes one path for two such
  books, and after the export the file holds the later book only.
\<close>

theorem sanitizeFilename_collision:
  "sanitizeFilename (str ''a/b'') = sanitizeFilename (str ''a:b'') \<and>
   sanitizeFilename (str ''a b'') = sanitizeFilename (str ''a  b'') \<and>
   bookPath \<lparr>Dir = str ''out''\<rparr> \<lparr>Title = str ''a/b'', Author = [], Highlights = [\<lparr>Text = str ''x'', Date = []\<rparr>]\<rparr> =
   bookPath \<lparr>Dir = str ''out''\<rparr> \<lparr>Title = str ''a:b'', Author = [], Highlights = [\<lparr>Text = str ''y'', Date = []\<rparr>]\<rparr> \<and>
   MarkdownExport fs_ok \<lparr>Dir = str ''out''\<rparr>
     [\<lparr>Title = str ''a/b'', Author = [], Highlights = [\<lparr>Text = str ''x'', Date = []\<rparr>]\<rparr>,
      \<lparr>Title = str ''a:b'', Author = [], Highlights = [\<lparr>Text = str ''y'', Date = []\<rparr>]\<rparr>] Map.empty =
     (None, [(str ''out'', str ''a-b.md'') \<mapsto> str ''# a:b\<newline>\<newline>> y\<newline>\<newline>''])"
proof -
  let ?m = "\<lparr>Dir = str ''out''\<rparr>"
  let ?b1 = "\<lparr>Title = str ''a/b'', Author = [], Highlights = [\<lparr>Text = str ''x'', Date = []\<rparr>]\<rparr>"
  let ?b2 = "\<lparr>Title = str ''a:b'', Author = [], Highlights = [\<lparr>Text = str ''y'', Date = []\<rparr>]\<rparr>"
  have s1: "sanitizeFilename (str ''a/b'') = str ''a-b''"
    by (simp add: sanitizeFilename_def str_def TrimSpace_def isSpace_def Replace_def replacerTable_def Fields_def)
  have s2: "sanitizeFilename (str ''a:b'') = str ''a-b''"
    by (simp add: sanitizeFilename_def str_def TrimSpace_def isSpace_def Replace_def replacerTable_def Fields_def)
  have s3: "sanitizeFilename (str ''a b'') = str ''a-b''"
    by (simp add: sanitizeFilename_def str_def TrimSpace_def isSpace_def Replace_def replacerTable_def Fields_def)
  have s4: "sanitizeFilename (str ''a  b'') = str ''a-b''"
    by (simp add: sanitizeFilename_def str_def TrimSpace_def isSpace_def Replace_def replacerTable_def Fields_def)
  have p1: "bookPath ?m ?b1 = (str ''out'', str ''a-b.md'')"
    by (simp add: bookPath_def filepath_Join_def s1) (simp add: str_def)
  have p2: "bookPath ?m ?b2 = (str ''out'', str ''a-b.md'')"
    by (simp add: bookPath_def filepath_Join_def s2) (simp add: str_def)
  have c2: "spec_content ?b2 = str ''# a:b\<newline>\<newline>> y\<newline>\<newline>''"
    by (simp add: spec_content_def spec_heading_def spec_quote_def str_def nl_def TrimSpace_def isSpace_def)
  have d: "Dir ?m \<noteq> []" by (simp add: str_def)
  have "MarkdownExport fs_ok ?m [?b1, ?b2] Map.empty =
     (None, [(str ''out'', str ''a-b.md'') \<mapsto> str ''# a:b\<newline>\<newline>> y\<newline>\<newline>''])"
    unfolding MarkdownExport_def exportBooks_ok_two p1 p2 c2
    using d by (simp add: fs_ok_def)
  with s1 s2 s3 s4 p1 p2 show ?thesis by simp
qed

section \<open>Properties of the query and grouping engine\<close>

lemma find_snoc:
  "find P (xs @ [y]) = (case find P xs of None \<Rightarrow> (if P y then Some y else None) | Some x \<Rightarrow> Some x)"
  by (induction xs) auto

lemma find_None_titles: "find (\<lambda>r. rowTitle r = t) rs = None \<longleftrightarrow> t \<notin> rowTitle ` set rs"
  by (auto simp: find_None_iff)

lemma scanned_snoc:
  "scanned (rows @ [x]) = scanned rows @ (case Scan x of None \<Rightarrow> [] | Some y \<Rightarrow> [y])"
  by (simp add: scanned_def List.map_filter_def split: option.splits)

lemma spec_book_snoc_other:
  "rowTitle y \<noteq> t \<Longrightarrow> spec_book (rs @ [y]) t = spec_book rs t"
  by (simp add: spec_book_def spec_author_def find_snoc split: option.splits)

lemma spec_book_snoc_new:
  "rowTitle y \<notin> rowTitle ` set rs \<Longrightarrow>
   spec_book (rs @ [y]) (rowTitle y) =
     \<lparr>Title = rowTitle y, Author = rowAuthor y, Highlights = [rowHighlight y]\<rparr>"
proof -
  assume n: "rowTitle y \<notin> rowTitle ` set rs"
  then have "find (\<lambda>r. rowTitle r = rowTitle y) rs = None" by (simp add: find_None_titles)
  moreover from n have "filter (\<lambda>r. rowTitle r = rowTitle y) rs = []"
    unfolding filter_empty_conv by (metis imageI)
  ultimately show ?thesis by (simp add: spec_book_def spec_author_def find_snoc)
qed

lemma spec_book_snoc_old:
  "rowTitle y \<in> rowTitle ` set rs \<Longrightarrow>
   spec_book (rs @ [y]) (rowTitle y) =
     (spec_book rs (rowTitle y))\<lparr>Highlights := Highlights (spec_book rs (rowTitle y)) @ [rowHighlight y]\<rparr>"
proof -
  assume "rowTitle y \<in> rowTitle ` set rs"
  then have "find (\<lambda>r. rowTitle r = rowTitle y) rs \<noteq> None" by (simp add: find_None_titles)
  then show ?thesis by (auto simp: spec_book_def spec_author_def find_snoc)
qed

text \<open>The state of the grouping loop after the rows \<open>rs\<close> were scanned.\<close>

lemma groupStep_skip: "Scan x = None \<Longrightarrow> groupStep st x = st"
  by (simp add: groupStep_def)

lemma groupStep_new:
  assumes "Scan x = Some y" and "g (rowTitle y) = None"
  shows "groupStep (g, order) x =
           (g(rowTitle y \<mapsto> \<lparr>Title = rowTitle y, Author = rowAuthor y, Highlights = [rowHighlight y]\<rparr>),
            order @ [rowTitle y])"
  using assms
  by (cases y) (simp add: groupStep_def rowTitle_def rowAuthor_def rowHighlight_def)

lemma groupStep_old:
  assumes "Scan x = Some y" and "g (rowTitle y) = Some b"
  shows "groupStep (g, order) x =
           (g(rowTitle y \<mapsto> b\<lparr>Highlights := Highlights b @ [rowHighlight y]\<rparr>), order)"
  using assms
  by (cases y) (simp add: groupStep_def rowTitle_def rowAuthor_def rowHighlight_def)

lemma grouping_state:
  "fst (foldl groupStep (Map.empty, []) rows) =
     (\<lambda>t. if t \<in> rowTitle ` set (scanned rows) then Some (spec_book (scanned rows) t) else None) \<and>
   distinct (snd (foldl groupStep (Map.empty, []) rows)) \<and>
   set (snd (foldl groupStep (Map.empty, []) rows)) = rowTitle ` set (scanned rows)"
proof (induction rows rule: rev_induct)
  case Nil
  show ?case by (simp add: scanned_def List.map_filter_def)
next
  case (snoc x rows)
  let ?st = "foldl groupStep (Map.empty, []) rows"
  let ?S = "scanned rows"
  obtain g order where st: "?st = (g, order)" by (cases ?st)
  with snoc have g: "g = (\<lambda>t. if t \<in> rowTitle ` set ?S then Some (spec_book ?S t) else None)"
    and d: "distinct order" and s: "set order = rowTitle ` set ?S" by simp_all
  have step: "foldl groupStep (Map.empty, []) (rows @ [x]) = groupStep (g, order) x"
    by (simp add: st)
  show ?case
  proof (cases "Scan x")
    case None
    then have e: "scanned (rows @ [x]) = ?S" by (simp add: scanned_snoc)
    show ?thesis using g d s unfolding step e groupStep_skip [OF None] by simp
  next
    case (Some y)
    have S': "scanned (rows @ [x]) = ?S @ [y]" by (simp add: scanned_snoc Some)
    show ?thesis
    proof (cases "rowTitle y \<in> rowTitle ` set ?S")
      case True
      then have "g (rowTitle y) = Some (spec_book ?S (rowTitle y))" by (simp add: g)
      from groupStep_old [of x y g "spec_book ?S (rowTitle y)" order, OF Some this]
      have gs: "groupStep (g, order) x =
           (g(rowTitle y \<mapsto> spec_book (?S @ [y]) (rowTitle y)), order)"
        by (simp add: spec_book_snoc_old [OF True])
      have "g(rowTitle y \<mapsto> spec_book (?S @ [y]) (rowTitle y)) =
            (\<lambda>t. if t \<in> rowTitle ` set (?S @ [y]) then Some (spec_book (?S @ [y]) t) else None)"
        using True by (auto simp: g fun_eq_iff spec_book_snoc_other)
      then show ?thesis using True d s unfolding step gs S' by auto
    next
      case False
      then have "g (rowTitle y) = None" by (simp add: g)
      from groupStep_new [of x y g order, OF Some this]
      have gs: "groupStep (g, order) x =
           (g(rowTitle y \<mapsto> spec_book (?S @ [y]) (rowTitle y)), order @ [rowTitle y])"
        by (simp add: spec_book_snoc_new [OF False])
      have "g(rowTitle y \<mapsto> spec_book (?S @ [y]) (rowTitle y)) =
            (\<lambda>t. if t \<in> rowTitle ` set (?S @ [y]) then Some (spec_book (?S @ [y]) t) else None)"
        using False by (auto simp: g fun_eq_iff spec_book_snoc_other)
      then show ?thesis using False d s unfolding step gs S' by auto
    qed
  qed
qed

lemma those_map_Some:
  "\<forall>x\<in>set xs. f x = Some (h x) \<Longrightarrow> those (map f xs) = Some (map h xs)"
  by (induction xs) auto

lemma groupRows_eq:
  "groupRows rows =
     Some (map (spec_book (scanned rows)) (sort (remdups (map rowTitle (scanned rows)))))"
proof -
  let ?st = "foldl groupStep (Map.empty, []) rows"
  let ?S = "scanned rows"
  from grouping_state [of rows]
  have g: "fst ?st = (\<lambda>t. if t \<in> rowTitle ` set ?S then Some (spec_book ?S t) else None)"
    and d: "distinct (snd ?st)" and s: "set (snd ?st) = rowTitle ` set ?S" by simp_all
  have "sorted (sort (snd ?st))" "distinct (sort (snd ?st))" "set (sort (snd ?st)) = rowTitle ` set ?S"
    using d s by simp_all
  moreover have "sorted (sort (remdups (map rowTitle ?S)))" "distinct (sort (remdups (map rowTitle ?S)))"
    "set (sort (remdups (map rowTitle ?S))) = rowTitle ` set ?S" by simp_all
  ultimately have o: "sort (snd ?st) = sort (remdups (map rowTitle ?S))"
    by (metis sorted_distinct_set_unique)
  have "\<forall>t\<in>set (sort (snd ?st)). fst ?st t = Some (spec_book ?S t)"
    using s by (simp add: g)
  from those_map_Some [OF this] show ?thesis
    unfolding groupRows_def Let_def o by simp
qed



text \<open>
  C3: for every sequence of rows the grouping yields one Book for each title that occurs,
  with the author of the first row of that title and the highlights of the rows of that
  title in their order, and the Books are in strictly ascending order of title. The rows
  meant are those the loop scans; a row with a NULL column is logged and skipped.
\<close>

theorem groupRows_one_book_per_title:
  "\<exists>books. groupRows rows = Some books \<and>
     distinct (map Title books) \<and>
     set (map Title books) = rowTitle ` set (scanned rows) \<and>
     sorted_wrt (<) (map Title books) \<and>
     (\<forall>b\<in>set books.
        (\<exists>r. find (\<lambda>r. rowTitle r = Title b) (scanned rows) = Some r \<and> Author b = rowAuthor r) \<and>
        Highlights b = map rowHighlight (filter (\<lambda>r. rowTitle r = Title b) (scanned rows)))"
proof -
  let ?S = "scanned rows"
  let ?ts = "sort (remdups (map rowTitle ?S))"
  let ?books = "map (spec_book ?S) ?ts"
  have t: "map Title ?books = ?ts" by (simp add: spec_book_def comp_def)
  have "sorted ?ts \<and> distinct ?ts" by simp
  then have strict: "sorted_wrt (<) ?ts" by (simp only: strict_sorted_iff)
  have each: "(\<exists>r. find (\<lambda>r. rowTitle r = Title b) ?S = Some r \<and> Author b = rowAuthor r) \<and>
        Highlights b = map rowHighlight (filter (\<lambda>r. rowTitle r = Title b) ?S)"
    if "b \<in> set ?books" for b
  proof -
    from that obtain t where b: "b = spec_book ?S t" and "t \<in> rowTitle ` set ?S" by auto
    then have "find (\<lambda>r. rowTitle r = t) ?S \<noteq> None" by (simp add: find_None_titles)
    then obtain r where "find (\<lambda>r. rowTitle r = t) ?S = Some r" by auto
    then show ?thesis by (simp add: b spec_book_def spec_author_def)
  qed
  have "groupRows rows = Some ?books" by (rule groupRows_eq)
  moreover have "distinct (map Title ?books)" unfolding t by simp
  moreover have "set (map Title ?books) = rowTitle ` set ?S" unfolding t by simp
  moreover have "sorted_wrt (<) (map Title ?books)" unfolding t by (rule strict)
  ultimately show ?thesis using each by blast
qed

theorem groupRows_one_book_per_title_witness:
  "groupRows [example_row ''B'' ''X'' ''t1'', example_row ''A'' ''Y'' ''t2'',
              (example_row ''A'' ''W'' ''t0'')\<lparr>col_Date := None\<rparr>, example_row ''B'' ''Z'' ''t3''] =
     Some [\<lparr>Title = str ''A'', Author = str ''Y'', Highlights = [\<lparr>Text = str ''t2'', Date = str ''d''\<rparr>]\<rparr>,
           \<lparr>Title = str ''B'', Author = str ''X'',
             Highlights = [\<lparr>Text = str ''t1'', Date = str ''d''\<rparr>, \<lparr>Text = str ''t3'', Date = str ''d''\<rparr>]\<rparr>]"
  using groupRows_one_book_per_title
    [of "[example_row ''B'' ''X'' ''t1'', example_row ''A'' ''Y'' ''t2'',
          (example_row ''A'' ''W'' ''t0'')\<lparr>col_Date := None\<rparr>, example_row ''B'' ''Z'' ''t3'']"]
  by (simp add: groupRows_def groupStep_def Scan_def example_row_def str_def)

lemma fetchBooks_Inr:
  assumes "fetchBooks db limit debug = Inr books"
  shows "books = map (spec_book (scanned (queryRows (containerIndex db) (Bookmark db) (content_table db) limit)))
           (sort (remdups (map rowTitle
              (scanned (queryRows (containerIndex db) (Bookmark db) (content_table db) limit)))))"
  using assms
  by (auto simp: fetchBooks_def groupRows_eq Let_def split: stat_result.splits inspect_result.splits if_splits)

lemma count_by_title:
  "finite T \<Longrightarrow> rowTitle ` set rs \<subseteq> T \<Longrightarrow>
   (\<Sum>t\<in>T. length (filter (\<lambda>r. rowTitle r = t) rs)) = length rs"
proof (induction rs)
  case Nil
  then show ?case by simp
next
  case (Cons r rs)
  have "(\<Sum>t\<in>T. length (filter (\<lambda>x. rowTitle x = t) (r # rs))) =
        (\<Sum>t\<in>T. (if rowTitle r = t then 1 else 0) + length (filter (\<lambda>x. rowTitle x = t) rs))"
    by (intro sum.cong) auto
  also have "\<dots> = (\<Sum>t\<in>T. if rowTitle r = t then 1 else 0) + (\<Sum>t\<in>T. length (filter (\<lambda>x. rowTitle x = t) rs))"
    by (simp add: sum.distrib)
  also have "(\<Sum>t\<in>T. if rowTitle r = t then 1 else (0::nat)) = 1"
    using Cons.prems by simp
  also have "(\<Sum>t\<in>T. length (filter (\<lambda>x. rowTitle x = t) rs)) = length rs"
    using Cons by simp
  finally show ?case by simp
qed

lemma highlights_total:
  "sum_list (map (\<lambda>b. length (Highlights b)) (map (spec_book rs) (sort (remdups (map rowTitle rs))))) =
   length rs"
proof -
  let ?ts = "sort (remdups (map rowTitle rs))"
  have "sum_list (map (\<lambda>b. length (Highlights b)) (map (spec_book rs) ?ts)) =
        sum_list (map (\<lambda>t. length (filter (\<lambda>r. rowTitle r = t) rs)) ?ts)"
    by (simp add: spec_book_def comp_def)
  also have "\<dots> = (\<Sum>t\<in>set ?ts. length (filter (\<lambda>r. rowTitle r = t) rs))"
    by (rule sum_list_distinct_conv_sum_set) simp
  also have "\<dots> = length rs"
    by (rule count_by_title) simp_all
  finally show ?thesis .
qed

lemma length_scanned: "length (scanned rows) \<le> length rows"
  unfolding scanned_def List.map_filter_def length_map by (rule length_filter_le)

lemma length_queryRows: "0 < limit \<Longrightarrow> length (queryRows idx bs cs limit) \<le> nat limit"
  by (simp add: queryRows_def)

text \<open>
  C4: with a limit N > 0 the query delivers at most N rows, so the returned Books hold at
  most N highlights in all; with the limit 0 the query delivers every selected row, and
  the Books hold one highlight for each of them that scans.
\<close>

theorem fetchBooks_limit:
  assumes "fetchBooks db limit debug = Inr books"
  shows "(0 < limit \<longrightarrow>
            length (queryRows (containerIndex db) (Bookmark db) (content_table db) limit) \<le> nat limit \<and>
            sum_list (map (\<lambda>b. length (Highlights b)) books) \<le> nat limit) \<and>
         (limit = 0 \<longrightarrow>
            queryRows (containerIndex db) (Bookmark db) (content_table db) limit =
              baseQuery (containerIndex db) (Bookmark db) (content_table db) \<and>
            sum_list (map (\<lambda>b. length (Highlights b)) books) =
              length (scanned (baseQuery (containerIndex db) (Bookmark db) (content_table db))))"
proof -
  let ?rows = "queryRows (containerIndex db) (Bookmark db) (content_table db) limit"
  have total: "sum_list (map (\<lambda>b. length (Highlights b)) books) = length (scanned ?rows)"
    unfolding fetchBooks_Inr [OF assms] by (rule highlights_total)
  have "length (scanned ?rows) \<le> nat limit" if "0 < limit"
    using length_scanned [of ?rows] length_queryRows [OF that, of "containerIndex db" "Bookmark db" "content_table db"]
    by linarith
  moreover have "?rows = baseQuery (containerIndex db) (Bookmark db) (content_table db)" if "limit = 0"
    using that by (simp add: queryRows_def)
  ultimately show ?thesis using total by (auto simp: length_queryRows)
qed

theorem fetchBooks_limit_witness:
  "fetchBooks example_db 2 False =
     Inr [\<lparr>Title = str ''T'', Author = [],
           Highlights = [\<lparr>Text = str ''a'', Date = str ''d''\<rparr>, \<lparr>Text = str ''b'', Date = str ''d''\<rparr>]\<rparr>] \<and>
   length (queryRows (containerIndex example_db) (Bookmark example_db) (content_table example_db) 2) \<le> nat 2 \<and>
   sum_list (map (\<lambda>b. length (Highlights b))
     [\<lparr>Title = str ''T'', Author = [],
           Highlights = [\<lparr>Text = str ''a'', Date = str ''d''\<rparr>, \<lparr>Text = str ''b'', Date = str ''d''\<rparr>]\<rparr>]) \<le> nat 2 \<and>
   fetchBooks example_db 0 False =
     Inr [\<lparr>Title = str ''T'', Author = [],
           Highlights = [\<lparr>Text = str ''a'', Date = str ''d''\<rparr>, \<lparr>Text = str ''b'', Date = str ''d''\<rparr>,
                         \<lparr>Text = str ''c'', Date = str ''d''\<rparr>]\<rparr>]"
proof -
  have h: "fetchBooks example_db 2 False =
     Inr [\<lparr>Title = str ''T'', Author = [],
           Highlights = [\<lparr>Text = str ''a'', Date = str ''d''\<rparr>, \<lparr>Text = str ''b'', Date = str ''d''\<rparr>]\<rparr>]"
    by code_simp
  have h0: "fetchBooks example_db 0 False =
     Inr [\<lparr>Title = str ''T'', Author = [],
           Highlights = [\<lparr>Text = str ''a'', Date = str ''d''\<rparr>, \<lparr>Text = str ''b'', Date = str ''d''\<rparr>,
                         \<lparr>Text = str ''c'', Date = str ''d''\<rparr>]\<rparr>]"
    by code_simp
  from fetchBooks_limit [OF h] h h0 show ?thesis by simp
qed

lemma queryRows_where:
  "r \<in> set (queryRows idx bs cs limit) \<Longrightarrow> \<exists>x. col_Text r = Some x \<and> 0 < sql_LENGTH (sql_TRIM x)"
proof -
  assume "r \<in> set (queryRows idx bs cs limit)"
  then have "r \<in> set (baseQuery idx bs cs)"
    by (auto simp: queryRows_def split: if_splits dest: in_set_takeD)
  then obtain bc where "r = selectRow bc" and "whereClause (fst bc)"
    by (auto simp: baseQuery_def)
  then show ?thesis
    by (auto simp: selectRow_def whereClause_def split: option.splits)
qed

lemma scanned_row:
  "y \<in> set (scanned rows) \<Longrightarrow> \<exists>r\<in>set rows. col_Text r = Some (Text (rowHighlight y))"
  by (auto simp: scanned_def List.map_filter_def Scan_def rowHighlight_def split: option.splits)

lemma sql_LENGTH_pos: "0 < sql_LENGTH x \<Longrightarrow> x \<noteq> []"
  by (auto simp: sql_LENGTH_def)

text \<open>
  C9, as the code has it: every Book that \<open>fetchBooks\<close> returns has at least one
  highlight, and the text of every highlight was not NULL and is not empty once the
  space characters U+0020 at its ends are removed: the row it comes from passed
  \<open>LENGTH(TRIM(b.Text)) > 0\<close>. Other white space is not trimmed by the query, so a text
  that \<open>strings.TrimSpace\<close> would empty, a single tab for one, is returned.
\<close>

theorem fetchBooks_highlights_nonblank:
  assumes "fetchBooks db limit debug = Inr books"
  shows "\<forall>b\<in>set books. Highlights b \<noteq> [] \<and>
           (\<forall>h\<in>set (Highlights b). 0 < sql_LENGTH (sql_TRIM (Text h)) \<and> sql_TRIM (Text h) \<noteq> [])"
proof
  fix b assume b: "b \<in> set books"
  let ?rows = "queryRows (containerIndex db) (Bookmark db) (content_table db) limit"
  from b obtain t where bt: "b = spec_book (scanned ?rows) t" and t: "t \<in> rowTitle ` set (scanned ?rows)"
    unfolding fetchBooks_Inr [OF assms] by auto
  from t have "filter (\<lambda>r. rowTitle r = t) (scanned ?rows) \<noteq> []"
    by (auto simp: filter_empty_conv)
  then have ne: "Highlights b \<noteq> []" by (simp add: bt spec_book_def)
  have "0 < sql_LENGTH (sql_TRIM (Text h)) \<and> sql_TRIM (Text h) \<noteq> []" if "h \<in> set (Highlights b)" for h
  proof -
    from that obtain y where "y \<in> set (scanned ?rows)" and h: "h = rowHighlight y"
      by (auto simp: bt spec_book_def)
    from scanned_row [OF this(1)] obtain r where "r \<in> set ?rows" and "col_Text r = Some (Text h)"
      by (auto simp: h)
    with queryRows_where [of r] have "0 < sql_LENGTH (sql_TRIM (Text h))" by auto
    then show ?thesis by (simp add: sql_LENGTH_pos)
  qed
  with ne show "Highlights b \<noteq> [] \<and>
           (\<forall>h\<in>set (Highlights b). 0 < sql_LENGTH (sql_TRIM (Text h)) \<and> sql_TRIM (Text h) \<noteq> [])"
    by blast
qed

theorem fetchBooks_highlights_nonblank_witness:
  "fetchBooks example_db 0 False =
     Inr [\<lparr>Title = str ''T'', Author = [],
           Highlights = [\<lparr>Text = str ''a'', Date = str ''d''\<rparr>, \<lparr>Text = str ''b'', Date = str ''d''\<rparr>,
                         \<lparr>Text = str ''c'', Date = str ''d''\<rparr>]\<rparr>] \<and>
   list_all (\<lambda>b. Highlights b \<noteq> [] \<and> list_all (\<lambda>h. sql_TRIM (Text h) \<noteq> []) (Highlights b))
     [\<lparr>Title = str ''T'', Author = [],
           Highlights = [\<lparr>Text = str ''a'', Date = str ''d''\<rparr>, \<lparr>Text = str ''b'', Date = str ''d''\<rparr>,
                         \<lparr>Text = str ''c'', Date = str ''d''\<rparr>]\<rparr>]"
proof -
  have h0: "fetchBooks example_db 0 False =
     Inr [\<lparr>Title = str ''T'', Author = [],
           Highlights = [\<lparr>Text = str ''a'', Date = str ''d''\<rparr>, \<lparr>Text = str ''b'', Date = str ''d''\<rparr>,
                         \<lparr>Text = str ''c'', Date = str ''d''\<rparr>]\<rparr>]"
    by code_simp
  from fetchBooks_highlights_nonblank [OF h0] h0 show ?thesis by (simp add: list_all_iff)
qed

theorem fetchBooks_tab_counterexample:
  "fetchBooks example_tab_db 0 False =
     Inr [\<lparr>Title = str ''T'', Author = [], Highlights = [\<lparr>Text = [0x09], Date = str ''d''\<rparr>]\<rparr>] \<and>
   TrimSpace [0x09] = []"
proof -
  have "fetchBooks example_tab_db 0 False =
     Inr [\<lparr>Title = str ''T'', Author = [], Highlights = [\<lparr>Text = [0x09], Date = str ''d''\<rparr>]\<rparr>]"
    by code_simp
  moreover have "TrimSpace [0x09] = []" by (simp add: TrimSpace_def isSpace_def)
  ultimately show ?thesis by simp
qed

section \<open>Properties of the Notion exporter\<close>

lemma send_log: "send env log rq = (r, log') \<Longrightarrow> log' = log @ [rq]"
  by (simp add: send_def)

lemma resolve_log:
  "resolveTitlePropertyName env n log = (r, n', log') \<Longrightarrow>
   \<exists>new. log' = log @ new \<and> (\<forall>rq\<in>set new. req_body rq = NoPayload \<and> req_method rq = GET)"
  by (auto simp: resolveTitlePropertyName_def send_def Let_def
      split: if_splits sum.splits option.splits prod.splits)

lemma resolveIfNeeded_log:
  "resolveIfNeeded env n log = (n', log') \<Longrightarrow>
   \<exists>new. log' = log @ new \<and> (\<forall>rq\<in>set new. req_body rq = NoPayload \<and> req_method rq = GET)"
proof -
  assume a: "resolveIfNeeded env n log = (n', log')"
  show ?thesis
  proof (cases "resolvedTitle n")
    case True
    with a show ?thesis by (simp add: resolveIfNeeded_def)
  next
    case False
    obtain r where "resolveTitlePropertyName env n log = (r, n', log')"
      using a False by (cases "resolveTitlePropertyName env n log") (simp add: resolveIfNeeded_def)
    then show ?thesis by (rule resolve_log)
  qed
qed


lemma pageExists_log:
  assumes "pageExistsByTitle env n log t = (r, n', log')"
  shows "\<exists>new. log' = log @ new \<and> (\<forall>rq\<in>set new. \<not> isWrite rq \<and> \<not> isAppend rq \<and> \<not> isCreate rq)"
proof -
  obtain n1 log1 where r: "resolveIfNeeded env n log = (n1, log1)"
    by (cases "resolveIfNeeded env n log")
  from resolveIfNeeded_log [OF r] obtain new1 where
    l1: "log1 = log @ new1" and k1: "\<forall>rq\<in>set new1. req_body rq = NoPayload \<and> req_method rq = GET" by blast
  let ?rq = "\<lparr>req_method = POST, req_url = queryURL n1, req_body = QueryPayload (titlePropName n1) t\<rparr>"
  from assms r have "log' = log1 \<or> log' = log1 @ [?rq]"
    by (auto simp: pageExistsByTitle_def send_def split: if_splits sum.splits option.splits)
  then have "log' = log @ new1 \<or> log' = log @ (new1 @ [?rq])" using l1 by auto
  moreover have "\<forall>rq\<in>set (new1 @ [?rq]). \<not> isWrite rq \<and> \<not> isAppend rq \<and> \<not> isCreate rq"
    using k1 by (auto simp: isWrite_def isAppend_def isCreate_def)
  ultimately show ?thesis by (metis Un_iff set_append)
qed


lemma createReq_log:
  "createReq env log p = (r, log') \<Longrightarrow>
   (case r of Inl e \<Rightarrow> log' = log \<or> log' = log @ [\<lparr>req_method = POST, req_url = pagesURL, req_body = p\<rparr>]
    | Inr resp \<Rightarrow> log' = log @ [\<lparr>req_method = POST, req_url = pagesURL, req_body = p\<rparr>] \<and>
        \<not> NewRequest_fails env pagesURL \<and>
        Do env log \<lparr>req_method = POST, req_url = pagesURL, req_body = p\<rparr> = Inr resp)"
  by (auto simp: createReq_def send_def split: if_splits sum.splits)

lemma createPage_log:
  assumes "createPage env n nt author log = (r, log')"
  shows "\<exists>new. log' = log @ new \<and> (\<forall>rq\<in>set new. isCreate rq \<and> \<not> isAppend rq \<and> \<not> isSchemaFetch rq)"
proof -
  let ?p1 = "PagePayload (databaseID n) (pageProps n nt author)"
  let ?p2 = "PagePayload (databaseID n) (AList.delete (str ''Author'') (pageProps n nt author))"
  let ?r1 = "\<lparr>req_method = POST, req_url = pagesURL, req_body = ?p1\<rparr>"
  let ?r2 = "\<lparr>req_method = POST, req_url = pagesURL, req_body = ?p2\<rparr>"
  obtain a log1 where c1: "createReq env log ?p1 = (a, log1)" by (cases "createReq env log ?p1")
  obtain b log2 where c2: "createReq env log1 ?p2 = (b, log2)" by (cases "createReq env log1 ?p2")
  from createReq_log [OF c1] have l1: "log1 = log \<or> log1 = log @ [?r1]" by (cases a) auto
  from createReq_log [OF c2] have l2: "log2 = log1 \<or> log2 = log1 @ [?r2]" by (cases b) auto
  from assms c1 c2 have "log' = log1 \<or> log' = log2"
    by (auto simp: createPage_def Let_def split: sum.splits if_splits)
  with l1 l2 have "log' = log @ [] \<or> log' = log @ [?r1] \<or> log' = log @ [?r2] \<or> log' = log @ [?r1, ?r2]"
    by auto
  moreover have "\<forall>rq\<in>set [?r1, ?r2]. isCreate rq \<and> \<not> isAppend rq \<and> \<not> isSchemaFetch rq"
    by (simp add: isCreate_def isAppend_def isSchemaFetch_def)
  ultimately show ?thesis
    by (elim disjE) (rule exI [of _ "[]"], simp, rule exI [of _ "[?r1]"], simp,
        rule exI [of _ "[?r2]"], simp, rule exI [of _ "[?r1, ?r2]"], simp)
qed

lemma appendLoop_log:
  "appendLoop env pageID blocks i log = (r, log') \<Longrightarrow>
   \<exists>new. log' = log @ new \<and>
     (\<forall>rq\<in>set new. isAppend rq \<and> \<not> isCreate rq \<and> \<not> isSchemaFetch rq \<and> length (blocksOf rq) \<le> 100) \<and>
     (r = None \<longrightarrow> concat (map blocksOf new) = drop i blocks)"
proof (induction env pageID blocks i log arbitrary: r log' rule: appendLoop.induct)
  case (1 env pageID blocks i log)
  show ?case
  proof (cases "i < length blocks")
    case False
    with "1.prems" show ?thesis by (simp add: appendLoop.simps [of env pageID blocks i log])
  next
    case True
    let ?stop = "if i + 100 > length blocks then length blocks else i + 100"
    let ?batch = "take (?stop - i) (drop i blocks)"
    let ?rq = "\<lparr>req_method = PATCH, req_url = childrenURL pageID, req_body = ChildrenPayload ?batch\<rparr>"
    have rq: "isAppend ?rq \<and> \<not> isCreate ?rq \<and> \<not> isSchemaFetch ?rq \<and> length (blocksOf ?rq) \<le> 100"
      by (auto simp: isAppend_def isCreate_def isSchemaFetch_def blocksOf_def)
    have d: "drop (i + 100) blocks = drop 100 (drop i blocks)"
      by (simp add: add.commute)
    have batch: "blocksOf ?rq @ drop (i + 100) blocks = drop i blocks"
    proof (cases "i + 100 > length blocks")
      case True
      then show ?thesis by (simp add: blocksOf_def)
    next
      case False
      then have "blocksOf ?rq = take 100 (drop i blocks)" by (simp add: blocksOf_def)
      then show ?thesis unfolding d by (simp only: append_take_drop_id)
    qed
    show ?thesis
    proof (cases "NewRequest_fails env (childrenURL pageID)")
      case nf: True
      with True "1.prems" show ?thesis by (auto simp: appendLoop.simps [of env pageID blocks i log])
    next
      case nf: False
      show ?thesis
      proof (cases "Do env log ?rq")
        case (Inl u)
        with True nf "1.prems" have "log' = log @ [?rq]" and "r \<noteq> None"
          by (auto simp: appendLoop.simps [of env pageID blocks i log] send_def)
        with rq show ?thesis by (intro exI [of _ "[?rq]"]) auto
      next
        case (Inr resp)
        show ?thesis
        proof (cases "StatusCode resp \<ge> 300")
          case bad: True
          with Inr True nf "1.prems" have "log' = log @ [?rq]" and "r \<noteq> None"
            by (auto simp: appendLoop.simps [of env pageID blocks i log] send_def)
          with rq show ?thesis by (intro exI [of _ "[?rq]"]) auto
        next
          case ok: False
          with Inr True nf "1.prems"
          have rec: "appendLoop env pageID blocks (i + 100) (log @ [?rq]) = (r, log')"
            by (simp add: appendLoop.simps [of env pageID blocks i log] send_def)
          have s: "send env log ?rq = (Inr resp, log @ [?rq])" by (simp add: send_def Inr)
          from "1.IH" [OF True refl refl nf s [symmetric] refl ok rec]
          obtain new where n: "log @ [?rq] @ new = log'"
            and a: "\<forall>rq\<in>set new. isAppend rq \<and> \<not> isCreate rq \<and> \<not> isSchemaFetch rq \<and> length (blocksOf rq) \<le> 100"
            and c: "r = None \<longrightarrow> concat (map blocksOf new) = drop (i + 100) blocks"
            by auto
          show ?thesis
          proof (intro exI [of _ "?rq # new"] conjI)
            show "log' = log @ ?rq # new" using n by simp
            show "\<forall>rq\<in>set (?rq # new). isAppend rq \<and> \<not> isCreate rq \<and> \<not> isSchemaFetch rq \<and> length (blocksOf rq) \<le> 100"
              using a rq by simp
            show "r = None \<longrightarrow> concat (map blocksOf (?rq # new)) = drop i blocks"
              using c batch by simp
          qed
        qed
      qed
    qed
  qed
qed


lemma blocksOf_other: "\<not> isAppend rq \<Longrightarrow> blocksOf rq = []"
  by (simp add: isAppend_def blocksOf_def split: payload.splits)

lemma NoPayload_kind:
  "req_body rq = NoPayload \<Longrightarrow> \<not> isWrite rq \<and> \<not> isAppend rq \<and> \<not> isCreate rq"
  by (simp add: isWrite_def isAppend_def isCreate_def)

lemma EnsureBookPage_stages:
  assumes "EnsureBookPage env (Some n0) t a hs log = (r, c', log')"
  obtains
    (failed) n1 log1 e n where
      "resolveIfNeeded env n0 log = (n1, log1)"
      "pageExistsByTitle env n1 log1 (notionTitle t a) = (Inl e, n, log')"
      "r = Some (CheckExistingPage e)" "c' = Some n"
  | (found) n1 log1 n where
      "resolveIfNeeded env n0 log = (n1, log1)"
      "pageExistsByTitle env n1 log1 (notionTitle t a) = (Inr True, n, log')"
      "r = None" "c' = Some n"
  | (nocreate) n1 log1 n log2 e where
      "resolveIfNeeded env n0 log = (n1, log1)"
      "pageExistsByTitle env n1 log1 (notionTitle t a) = (Inr False, n, log2)"
      "createPage env n (notionTitle t a) a log2 = (Inl e, log')"
      "r = Some e" "c' = Some n"
  | (created) n1 log1 n log2 pageID log3 where
      "resolveIfNeeded env n0 log = (n1, log1)"
      "pageExistsByTitle env n1 log1 (notionTitle t a) = (Inr False, n, log2)"
      "createPage env n (notionTitle t a) a log2 = (Inr pageID, log3)"
      "appendLoop env pageID (buildBlocks hs) 0 log3 = (r, log')" "c' = Some n"
proof -
  obtain n1 log1 where s1: "resolveIfNeeded env n0 log = (n1, log1)"
    by (cases "resolveIfNeeded env n0 log")
  obtain x n log2 where s2: "pageExistsByTitle env n1 log1 (notionTitle t a) = (x, n, log2)"
    by (cases "pageExistsByTitle env n1 log1 (notionTitle t a)")
  show thesis
  proof (cases x)
    case (Inl e)
    with assms s1 s2 have "r = Some (CheckExistingPage e)" "c' = Some n" "log' = log2"
      by (simp_all add: EnsureBookPage_def)
    with s1 s2 Inl show thesis by (intro failed [of n1 log1 e n]) simp_all
  next
    case (Inr ex)
    show thesis
    proof (cases ex)
      case True
      with assms s1 s2 Inr have "r = None" "c' = Some n" "log' = log2"
        by (simp_all add: EnsureBookPage_def)
      with s1 s2 Inr True show thesis by (intro found [of n1 log1 n]) simp_all
    next
      case False
      obtain y log3 where s3: "createPage env n (notionTitle t a) a log2 = (y, log3)"
        by (cases "createPage env n (notionTitle t a) a log2")
      show thesis
      proof (cases y)
        case (Inl e)
        with assms s1 s2 s3 Inr False have "r = Some e" "c' = Some n" "log' = log3"
          by (simp_all add: EnsureBookPage_def)
        with s1 s2 s3 Inr False Inl show thesis by (intro nocreate [of n1 log1 n log2 e]) simp_all
      next
        case (Inr pageID)
        with assms s1 s2 s3 \<open>x = Inr ex\<close> False
        have "appendLoop env pageID (buildBlocks hs) 0 log3 = (r, log')" "c' = Some n"
          by (auto simp: EnsureBookPage_def split: prod.splits)
        with s1 s2 s3 \<open>x = Inr ex\<close> False Inr show thesis
          by (intro created [of n1 log1 n log2 pageID log3]) simp_all
      qed
    qed
  qed
qed

text \<open>The requests of one call of \<open>EnsureBookPage\<close>, by kind.\<close>

lemma EnsureBookPage_log:
  assumes "EnsureBookPage env client t a hs log = (r, c', log')"
  shows "\<exists>new. log' = log @ new \<and> (\<forall>rq\<in>set new. length (blocksOf rq) \<le> 100)"
proof (cases client)
  case None
  with assms show ?thesis by (simp add: EnsureBookPage_def)
next
  case (Some n0)
  from assms [unfolded Some] show ?thesis
  proof (cases rule: EnsureBookPage_stages)
    case (failed n1 log1 e n)
    from resolveIfNeeded_log [OF failed(1)] pageExists_log [OF failed(2)]
    show ?thesis by (fastforce simp: blocksOf_other NoPayload_kind)
  next
    case (found n1 log1 n)
    from resolveIfNeeded_log [OF found(1)] pageExists_log [OF found(2)]
    show ?thesis by (fastforce simp: blocksOf_other NoPayload_kind)
  next
    case (nocreate n1 log1 n log2 e)
    from resolveIfNeeded_log [OF nocreate(1)] pageExists_log [OF nocreate(2)]
      createPage_log [OF nocreate(3)]
    show ?thesis by (fastforce simp: blocksOf_other NoPayload_kind)
  next
    case (created n1 log1 n log2 pageID log3)
    from resolveIfNeeded_log [OF created(1)] obtain new1 where
      1: "log1 = log @ new1" "\<forall>rq\<in>set new1. req_body rq = NoPayload \<and> req_method rq = GET" by blast
    from pageExists_log [OF created(2)] obtain new2 where
      2: "log2 = log1 @ new2" "\<forall>rq\<in>set new2. \<not> isWrite rq \<and> \<not> isAppend rq \<and> \<not> isCreate rq" by blast
    from createPage_log [OF created(3)] obtain new3 where
      3: "log3 = log2 @ new3" "\<forall>rq\<in>set new3. isCreate rq \<and> \<not> isAppend rq \<and> \<not> isSchemaFetch rq" by blast
    from appendLoop_log [OF created(4)] obtain new4 where
      4: "log' = log3 @ new4" "\<forall>rq\<in>set new4. length (blocksOf rq) \<le> 100" by blast
    have "log' = log @ (new1 @ new2 @ new3 @ new4)" using 1 2 3 4 by simp
    moreover have "\<forall>rq\<in>set (new1 @ new2 @ new3 @ new4). length (blocksOf rq) \<le> 100"
      using 1 2 3 4 by (auto simp: blocksOf_other NoPayload_kind)
    ultimately show ?thesis by blast
  qed
qed


lemma blocks_from:
  "k + length hs = n \<Longrightarrow>
   concat (map (\<lambda>(i, h). Quote h # (if int i < int n - 1 then [Paragraph] else [])) (enumerate k hs)) =
     spec_blocks hs"
proof (induction hs arbitrary: k rule: spec_blocks.induct)
  case 1
  show ?case by simp
next
  case (2 h)
  then show ?case by auto
next
  case (3 h v va)
  from "3.prems" have "Suc k + length (v # va) = n" by simp
  from "3.IH" [OF this] "3.prems" show ?case by auto
qed

lemma buildBlocks_spec: "buildBlocks hs = spec_blocks hs"
  unfolding buildBlocks_def by (rule blocks_from) simp

lemma length_spec_blocks: "length (spec_blocks hs) = 2 * length hs - 1"
  by (induction hs rule: spec_blocks.induct) auto

lemma appendLoop_step:
  assumes "i < length blocks" and "appendLoop env pageID blocks i log = (None, log')"
  shows "\<exists>rq. isAppend rq \<and> blocksOf rq = take 100 (drop i blocks) \<and>
              appendLoop env pageID blocks (i + 100) (log @ [rq]) = (None, log')"
proof -
  let ?stop = "if i + 100 > length blocks then length blocks else i + 100"
  let ?batch = "take (?stop - i) (drop i blocks)"
  let ?rq = "\<lparr>req_method = PATCH, req_url = childrenURL pageID, req_body = ChildrenPayload ?batch\<rparr>"
  have b: "?batch = take 100 (drop i blocks)" by auto
  have "appendLoop env pageID blocks (i + 100) (log @ [?rq]) = (None, log')"
    using assms
    by (auto simp: appendLoop.simps [of env pageID blocks i log] send_def Let_def
        split: if_splits sum.splits)
  moreover have "isAppend ?rq" by (simp add: isAppend_def)
  moreover have "blocksOf ?rq = take 100 (drop i blocks)" unfolding blocksOf_def using b by simp
  ultimately show ?thesis by blast
qed

lemma appendLoop_stop:
  "\<not> i < length blocks \<Longrightarrow> appendLoop env pageID blocks i log = (None, log)"
  by (simp add: appendLoop.simps [of env pageID blocks i log])

lemma appendLoop_499:
  assumes "length blocks = 499" and "appendLoop env pageID blocks 0 log = (None, log')"
  shows "\<exists>new. log' = log @ new \<and> list_all isAppend new \<and>
           map (\<lambda>rq. length (blocksOf rq)) new = [100, 100, 100, 100, 99]"
proof -
  have lt: "0 < length blocks" "100 < length blocks" "200 < length blocks" "300 < length blocks"
    "400 < length blocks" "\<not> 500 < length blocks"
    using assms(1) by simp_all
  from appendLoop_step [OF lt(1) assms(2)] obtain r0 where
    r0: "isAppend r0" "blocksOf r0 = take 100 (drop 0 blocks)"
    and "appendLoop env pageID blocks (0 + 100) (log @ [r0]) = (None, log')" by blast
  then have a1: "appendLoop env pageID blocks 100 (log @ [r0]) = (None, log')" by simp
  from appendLoop_step [OF lt(2) a1] obtain r1 where
    r1: "isAppend r1" "blocksOf r1 = take 100 (drop 100 blocks)"
    and "appendLoop env pageID blocks (100 + 100) ((log @ [r0]) @ [r1]) = (None, log')" by blast
  then have a2: "appendLoop env pageID blocks 200 (log @ [r0, r1]) = (None, log')" by simp
  from appendLoop_step [OF lt(3) a2] obtain r2 where
    r2: "isAppend r2" "blocksOf r2 = take 100 (drop 200 blocks)"
    and "appendLoop env pageID blocks (200 + 100) ((log @ [r0, r1]) @ [r2]) = (None, log')" by blast
  then have a3: "appendLoop env pageID blocks 300 (log @ [r0, r1, r2]) = (None, log')" by simp
  from appendLoop_step [OF lt(4) a3] obtain r3 where
    r3: "isAppend r3" "blocksOf r3 = take 100 (drop 300 blocks)"
    and "appendLoop env pageID blocks (300 + 100) ((log @ [r0, r1, r2]) @ [r3]) = (None, log')" by blast
  then have a4: "appendLoop env pageID blocks 400 (log @ [r0, r1, r2, r3]) = (None, log')" by simp
  from appendLoop_step [OF lt(5) a4] obtain r4 where
    r4: "isAppend r4" "blocksOf r4 = take 100 (drop 400 blocks)"
    and "appendLoop env pageID blocks (400 + 100) ((log @ [r0, r1, r2, r3]) @ [r4]) = (None, log')" by blast
  then have a5: "appendLoop env pageID blocks 500 (log @ [r0, r1, r2, r3, r4]) = (None, log')" by simp
  have e1: "log' = log @ [r0, r1, r2, r3, r4]"
    using a5 unfolding appendLoop_stop [OF lt(6)] by simp
  have e2: "list_all isAppend [r0, r1, r2, r3, r4]"
    using r0(1) r1(1) r2(1) r3(1) r4(1) by simp
  have e3: "map (\<lambda>rq. length (blocksOf rq)) [r0, r1, r2, r3, r4] = [100, 100, 100, 100, 99]"
    unfolding list.map r0(2) r1(2) r2(2) r3(2) r4(2) length_take length_drop assms(1) by simp
  show ?thesis
    by (rule exI [of _ "[r0, r1, r2, r3, r4]"]) (intro conjI e1 e2 e3)
qed

text \<open>A call that creates the page for 250 highlights and succeeds.\<close>

lemma EnsureBookPage_250:
  assumes "length hs = 250"
    and "resolveIfNeeded env n0 log = (n1, log1)"
    and "pageExistsByTitle env n1 log1 (notionTitle t a) = (Inr False, n, log2)"
    and "EnsureBookPage env (Some n0) t a hs log = (None, c', log')"
  shows "map (\<lambda>rq. length (blocksOf rq)) (filter isAppend (drop (length log) log')) = [100, 100, 100, 100, 99] \<and>
         concat (map blocksOf (filter isAppend (drop (length log) log'))) = buildBlocks hs"
  using assms(4)
proof (cases rule: EnsureBookPage_stages)
  case (created m1 l1 m l2 pageID log3)
  from created(1,2) assms(2,3) have eq: "m1 = n1" "l1 = log1" "m = n" "l2 = log2" by simp_all
  from resolveIfNeeded_log [OF assms(2)] obtain new1 where
    1: "log1 = log @ new1" "\<forall>rq\<in>set new1. req_body rq = NoPayload \<and> req_method rq = GET" by blast
  from pageExists_log [OF assms(3)] obtain new2 where
    2: "log2 = log1 @ new2" "\<forall>rq\<in>set new2. \<not> isWrite rq \<and> \<not> isAppend rq \<and> \<not> isCreate rq" by blast
  from createPage_log [OF created(3)] eq obtain new3 where
    3: "log3 = log2 @ new3" "\<forall>rq\<in>set new3. isCreate rq \<and> \<not> isAppend rq \<and> \<not> isSchemaFetch rq" by blast
  have len: "length (buildBlocks hs) = 499"
    using assms(1) by (simp add: buildBlocks_spec length_spec_blocks)
  from appendLoop_499 [OF len created(4)] obtain new4 where
    4: "log' = log3 @ new4" "list_all isAppend new4"
       "map (\<lambda>rq. length (blocksOf rq)) new4 = [100, 100, 100, 100, 99]" by (elim exE conjE)
  from appendLoop_log [OF created(4)] 4(1) have c: "concat (map blocksOf new4) = buildBlocks hs"
    by auto
  have pre: "filter isAppend (new1 @ new2 @ new3) = []"
    using 1 2 3 by (auto simp: filter_empty_conv NoPayload_kind)
  have "drop (length log) log' = (new1 @ new2 @ new3) @ new4" using 1 2 3 4 by simp
  then have "filter isAppend (drop (length log) log') = new4"
    using pre 4(2) by (simp add: list_all_iff)
  with 4 c show ?thesis by simp
next
  case (found m1 l1 m)
  with assms(2,3) show ?thesis by simp
next
  case (failed m1 l1 e m)
  with assms(2,3) show ?thesis by simp
next
  case (nocreate m1 l1 m l2 e)
  then show ?thesis by simp
qed


text \<open>The example service accepts every append request.\<close>

lemma appendLoop_example:
  "fst (appendLoop (example_env s f w) pageID blocks i log) = None"
proof (induction "example_env s f w" pageID blocks i log rule: appendLoop.induct)
  case (1 pageID blocks i log)
  show ?case
  proof (cases "i < length blocks")
    case False
    then show ?thesis by (simp add: appendLoop.simps [of _ pageID blocks i log])
  next
    case True
    let ?stop = "if i + 100 > length blocks then length blocks else i + 100"
    let ?rq = "\<lparr>req_method = PATCH, req_url = childrenURL pageID,
                req_body = ChildrenPayload (take (?stop - i) (drop i blocks))\<rparr>"
    let ?resp = "\<lparr>StatusCode = 200, Status = ''200 OK'', Body = []\<rparr>"
    have nf: "\<not> NewRequest_fails (example_env s f w) (childrenURL pageID)"
      by (simp add: example_env_def)
    have s: "send (example_env s f w) log ?rq = (Inr ?resp, log @ [?rq])"
      by (simp add: send_def example_env_def example_Do_def)
    have ok: "\<not> StatusCode ?resp \<ge> 300" by simp
    from "1.hyps" [OF True refl refl nf s [symmetric] refl ok]
    have "fst (appendLoop (example_env s f w) pageID blocks (i + 100) (log @ [?rq])) = None" .
    then show ?thesis
      using True nf s by (simp add: appendLoop.simps [of _ pageID blocks i log] Let_def)
  qed
qed

lemma example_resolve:
  "resolveIfNeeded (example_env 200 f w) (NewNotionClient (str ''tok'') (str ''db'')) [] =
     (\<lparr>token = str ''tok'', databaseID = str ''db'', titlePropName = str ''Name'', resolvedTitle = True\<rparr>,
      [\<lparr>req_method = GET, req_url = str ''https://api.notion.com/v1/databases/db'', req_body = NoPayload\<rparr>])"
  by (simp add: resolveIfNeeded_def resolveTitlePropertyName_def NewNotionClient_def example_env_def
      example_Do_def send_def databaseURL_def str_def)

lemma example_exists:
  "pageExistsByTitle (example_env 200 f w)
     \<lparr>token = str ''tok'', databaseID = str ''db'', titlePropName = str ''Name'', resolvedTitle = True\<rparr>
     log t =
   (Inr f, \<lparr>token = str ''tok'', databaseID = str ''db'', titlePropName = str ''Name'', resolvedTitle = True\<rparr>,
    log @ [\<lparr>req_method = POST, req_url = str ''https://api.notion.com/v1/databases/db/query'',
             req_body = QueryPayload (str ''Name'') t\<rparr>])"
  by (simp add: pageExistsByTitle_def resolveIfNeeded_def example_env_def example_Do_def send_def
      queryURL_def str_def)

lemma example_create_plain:
  "createPage (example_env 200 f w)
     \<lparr>token = str ''tok'', databaseID = str ''db'', titlePropName = str ''Name'', resolvedTitle = True\<rparr>
     t [] log =
   (Inr (str ''p1''),
    log @ [\<lparr>req_method = POST, req_url = pagesURL,
             req_body = PagePayload (str ''db'') [(str ''Name'', TitleValue t)]\<rparr>])"
  by (simp add: createPage_def pageProps_def createReq_def pageIDOf_def example_env_def example_Do_def
      send_def hasAuthor_def str_def)

lemma example_EnsureBookPage:
  "fst (EnsureBookPage (example_env 200 False w) (Some (NewNotionClient (str ''tok'') (str ''db'')))
          t [] hs []) = None"
  using appendLoop_example [of 200 False w]
  by (simp add: EnsureBookPage_def example_resolve example_exists example_create_plain notionTitle_def
      case_prod_beta)

text \<open>
  C1, as the code has it: the blocks are a quote for each highlight with a blank paragraph
  between consecutive quotes; no append request of a call carries more than 100 blocks;
  and for 250 highlights the 499 blocks of a created page go out in exactly five append
  requests of 100, 100, 100, 100 and 99 blocks, in order.
\<close>

theorem append_batches:
  "buildBlocks hs = spec_blocks hs \<and>
   (\<forall>rq\<in>set (drop (length log) (snd (snd (EnsureBookPage env client t a hs log)))).
      length (blocksOf rq) \<le> 100) \<and>
   (length hs = 250 \<and>
    pageExistsByTitle env (fst (resolveIfNeeded env n0 log)) (snd (resolveIfNeeded env n0 log))
      (notionTitle t a) = (Inr False, n, log2) \<and>
    EnsureBookPage env (Some n0) t a hs log = (None, c', log') \<longrightarrow>
      length (buildBlocks hs) = 499 \<and>
      map (\<lambda>rq. length (blocksOf rq)) (filter isAppend (drop (length log) log')) =
        [100, 100, 100, 100, 99] \<and>
      concat (map blocksOf (filter isAppend (drop (length log) log'))) = buildBlocks hs)"
proof (intro conjI impI)
  show "buildBlocks hs = spec_blocks hs" by (rule buildBlocks_spec)
next
  obtain r c1 log1 where e: "EnsureBookPage env client t a hs log = (r, c1, log1)"
    by (cases "EnsureBookPage env client t a hs log")
  from EnsureBookPage_log [OF e]
  show "\<forall>rq\<in>set (drop (length log) (snd (snd (EnsureBookPage env client t a hs log)))).
      length (blocksOf rq) \<le> 100"
    unfolding e by auto
next
  assume a: "length hs = 250 \<and>
    pageExistsByTitle env (fst (resolveIfNeeded env n0 log)) (snd (resolveIfNeeded env n0 log))
      (notionTitle t a) = (Inr False, n, log2) \<and>
    EnsureBookPage env (Some n0) t a hs log = (None, c', log')"
  then show "length (buildBlocks hs) = 499" by (simp add: buildBlocks_spec length_spec_blocks)
  have r: "resolveIfNeeded env n0 log = (fst (resolveIfNeeded env n0 log), snd (resolveIfNeeded env n0 log))"
    by simp
  from a EnsureBookPage_250 [OF _ r, of hs t a n log2 c' log']
  show "map (\<lambda>rq. length (blocksOf rq)) (filter isAppend (drop (length log) log')) =
        [100, 100, 100, 100, 99]"
    and "concat (map blocksOf (filter isAppend (drop (length log) log'))) = buildBlocks hs"
    by simp_all
qed

theorem append_batches_witness:
  "fst (EnsureBookPage (example_env 200 False 200) (Some (NewNotionClient (str ''tok'') (str ''db'')))
          (str ''T'') [] (replicate 250 (str ''x'')) []) = None \<and>
   map (\<lambda>rq. length (blocksOf rq))
     (filter isAppend
       (snd (snd (EnsureBookPage (example_env 200 False 200) (Some (NewNotionClient (str ''tok'') (str ''db'')))
          (str ''T'') [] (replicate 250 (str ''x'')) [])))) = [100, 100, 100, 100, 99]"
proof -
  let ?env = "example_env 200 False 200"
  let ?cl = "NewNotionClient (str ''tok'') (str ''db'')"
  let ?hs = "replicate 250 (str ''x'')"
  let ?cr = "\<lparr>token = str ''tok'', databaseID = str ''db'', titlePropName = str ''Name'', resolvedTitle = True\<rparr>"
  obtain r c' log' where e: "EnsureBookPage ?env (Some ?cl) (str ''T'') [] ?hs [] = (r, c', log')"
    by (cases "EnsureBookPage ?env (Some ?cl) (str ''T'') [] ?hs []")
  with example_EnsureBookPage [of 200 "str ''T''" ?hs] have r: "r = None" by simp
  have l: "length ?hs = 250" by simp
  have x: "pageExistsByTitle ?env (fst (resolveIfNeeded ?env ?cl [])) (snd (resolveIfNeeded ?env ?cl []))
      (notionTitle (str ''T'') []) =
      (Inr False, ?cr, [\<lparr>req_method = GET, req_url = str ''https://api.notion.com/v1/databases/db'', req_body = NoPayload\<rparr>] @
         [\<lparr>req_method = POST, req_url = str ''https://api.notion.com/v1/databases/db/query'',
             req_body = QueryPayload (str ''Name'') (notionTitle (str ''T'') [])\<rparr>])"
    unfolding example_resolve fst_conv snd_conv by (rule example_exists)
  have "length ?hs = 250 \<and>
    pageExistsByTitle ?env (fst (resolveIfNeeded ?env ?cl [])) (snd (resolveIfNeeded ?env ?cl []))
      (notionTitle (str ''T'') []) =
      (Inr False, ?cr, [\<lparr>req_method = GET, req_url = str ''https://api.notion.com/v1/databases/db'', req_body = NoPayload\<rparr>] @
         [\<lparr>req_method = POST, req_url = str ''https://api.notion.com/v1/databases/db/query'',
             req_body = QueryPayload (str ''Name'') (notionTitle (str ''T'') [])\<rparr>]) \<and>
    EnsureBookPage ?env (Some ?cl) (str ''T'') [] ?hs [] = (None, c', log')"
    using l x e r by (simp only: simp_thms)
  from append_batches [of ?hs "[]" ?env "Some ?cl" "str ''T''" "[]" ?cl ?cr _ c' log',
      THEN conjunct2, THEN conjunct2, THEN mp, OF this]
  have "map (\<lambda>rq. length (blocksOf rq)) (filter isAppend (drop (length ([]::request list)) log')) =
        [100, 100, 100, 100, 99]" by (rule conjunct2 [THEN conjunct1])
  then have "map (\<lambda>rq. length (blocksOf rq)) (filter isAppend log') = [100, 100, 100, 100, 99]"
    by (simp only: list.size drop_0)
  then show ?thesis unfolding e r by (simp only: fst_conv snd_conv simp_thms)
qed

theorem append_requests_counterexample:
  "fst (EnsureBookPage (example_env 200 False 200) (Some (NewNotionClient (str ''tok'') (str ''db'')))
          (str ''T'') [] (replicate 250 (str ''x'')) []) = None \<and>
   length (filter isAppend
       (snd (snd (EnsureBookPage (example_env 200 False 200) (Some (NewNotionClient (str ''tok'') (str ''db'')))
          (str ''T'') [] (replicate 250 (str ''x'')) [])))) = 5"
proof -
  let ?env = "example_env 200 False 200"
  let ?cl = "NewNotionClient (str ''tok'') (str ''db'')"
  let ?hs = "replicate 250 (str ''x'')"
  obtain r c' log' where e: "EnsureBookPage ?env (Some ?cl) (str ''T'') [] ?hs [] = (r, c', log')"
    by (cases "EnsureBookPage ?env (Some ?cl) (str ''T'') [] ?hs []")
  with example_EnsureBookPage [of 200 "str ''T''" ?hs] have r: "r = None" by simp
  have l: "length ?hs = 250" by simp
  from EnsureBookPage_250 [OF l example_resolve example_exists e [unfolded r]]
  have "map (\<lambda>rq. length (blocksOf rq)) (filter isAppend (drop (length ([]::request list)) log')) =
        [100, 100, 100, 100, 99]" by (rule conjunct1)
  then have "map (\<lambda>rq. length (blocksOf rq)) (filter isAppend log') = [100, 100, 100, 100, 99]"
    by (simp only: list.size drop_0)
  then have "length (map (\<lambda>rq. length (blocksOf rq)) (filter isAppend log')) =
             length [100, 100, 100, 100, 99::nat]"
    by (rule arg_cong)
  then have "length (filter isAppend log') = 5" by simp
  then show ?thesis unfolding e r by (simp only: fst_conv snd_conv simp_thms)
qed

lemma length_truncateForLog: "length (truncateForLog s 300) \<le> 300"
  by (simp add: truncateForLog_def)

lemma delete_no_author: "\<not> hasAuthor (PagePayload d (AList.delete (str ''Author'') ps))"
  by (simp add: hasAuthor_def AList.delete_eq map_of_eq_None_iff image_iff)

lemma pageProps_author: "author \<noteq> [] \<Longrightarrow> hasAuthor (PagePayload d (pageProps n nt author))"
  by (simp add: hasAuthor_def pageProps_def update_conv')

lemma createReq_again:
  "createReq env log p = (Inr resp, log1) \<Longrightarrow>
   createReq env log1 q =
     (case Do env log1 \<lparr>req_method = POST, req_url = pagesURL, req_body = q\<rparr> of
        Inl u \<Rightarrow> Inl TransportFailed | Inr resp2 \<Rightarrow> Inr resp2,
      log1 @ [\<lparr>req_method = POST, req_url = pagesURL, req_body = q\<rparr>])"
  by (auto simp: createReq_def send_def split: if_splits sum.splits)

text \<open>
  C2, as the code has it: once the first create request is answered, the request is
  repeated, once and without the property Author, exactly when the answer has the status
  400 and the author is not empty; no other status (404 is one) and no empty author
  leads to a second request. A status of 300 or more on the response that then stands is
  the error of the call, with the status line and at most 300 bytes of the body, and it
  ends the export with the title of the book.
\<close>

theorem createPage_fallback:
  assumes "createReq env log (PagePayload (databaseID n) (pageProps n nt author)) = (Inr resp, log1)"
  shows "snd (createPage env n nt author log) =
           (if StatusCode resp = 400 \<and> author \<noteq> []
            then log @ [pageRequest n (pageProps n nt author),
                        pageRequest n (AList.delete (str ''Author'') (pageProps n nt author))]
            else log @ [pageRequest n (pageProps n nt author)]) \<and>
         (author \<noteq> [] \<longrightarrow> hasAuthor (PagePayload (databaseID n) (pageProps n nt author))) \<and>
         \<not> hasAuthor (PagePayload (databaseID n) (AList.delete (str ''Author'') (pageProps n nt author))) \<and>
         (\<not> (StatusCode resp = 400 \<and> author \<noteq> []) \<and> 300 \<le> StatusCode resp \<longrightarrow>
            fst (createPage env n nt author log) =
              Inl (CreatePageError (Status resp) (truncateForLog (Body resp) 300))) \<and>
         (StatusCode resp = 400 \<and> author \<noteq> [] \<and>
          Do env log1 (pageRequest n (AList.delete (str ''Author'') (pageProps n nt author))) = Inr resp2 \<and>
          300 \<le> StatusCode resp2 \<longrightarrow>
            fst (createPage env n nt author log) =
              Inl (CreatePageError (Status resp2) (truncateForLog (Body resp2) 300))) \<and>
         length (truncateForLog s 300) \<le> 300 \<and>
         (EnsureBookPage env client (Title b) (Author b) (map Text (Highlights b)) log0 = (Some e, client1, log2) \<longrightarrow>
            notionExportLoop env client (b # bs) log0 = (Some (NotionExportError (Title b) e), client1, log2))"
proof -
  let ?p1 = "PagePayload (databaseID n) (pageProps n nt author)"
  let ?p2 = "PagePayload (databaseID n) (AList.delete (str ''Author'') (pageProps n nt author))"
  from createReq_log [OF assms] have l1: "log1 = log @ [pageRequest n (pageProps n nt author)]"
    by (simp add: pageRequest_def)
  note again = createReq_again [OF assms, of ?p2]
  have a: "snd (createPage env n nt author log) =
           (if StatusCode resp = 400 \<and> author \<noteq> []
            then log @ [pageRequest n (pageProps n nt author),
                        pageRequest n (AList.delete (str ''Author'') (pageProps n nt author))]
            else log @ [pageRequest n (pageProps n nt author)])"
    using assms again l1
    by (auto simp: createPage_def Let_def pageRequest_def split: sum.splits)
  have b: "fst (createPage env n nt author log) =
              Inl (CreatePageError (Status resp) (truncateForLog (Body resp) 300))"
    if "\<not> (StatusCode resp = 400 \<and> author \<noteq> [])" "300 \<le> StatusCode resp"
    using that assms by (auto simp: createPage_def Let_def pageIDOf_def)
  have c: "fst (createPage env n nt author log) =
              Inl (CreatePageError (Status resp2) (truncateForLog (Body resp2) 300))"
    if "StatusCode resp = 400" "author \<noteq> []"
      "Do env log1 (pageRequest n (AList.delete (str ''Author'') (pageProps n nt author))) = Inr resp2"
      "300 \<le> StatusCode resp2"
    using that assms again
    by (auto simp: createPage_def Let_def pageIDOf_def pageRequest_def)
  have d: "notionExportLoop env client (b # bs) log0 = (Some (NotionExportError (Title b) e), client1, log2)"
    if "EnsureBookPage env client (Title b) (Author b) (map Text (Highlights b)) log0 = (Some e, client1, log2)"
    using that by simp
  show ?thesis
    using a b c d pageProps_author [of author "databaseID n" n nt]
      delete_no_author [of "databaseID n" "pageProps n nt author"] length_truncateForLog [of s]
    by blast
qed


theorem createPage_fallback_witness:
  "createReq (example_env 200 False 400) []
     (PagePayload (databaseID (NewNotionClient (str ''tok'') (str ''db'')))
        (pageProps (NewNotionClient (str ''tok'') (str ''db'')) (str ''T (A)'') (str ''A''))) =
     (Inr \<lparr>StatusCode = 400, Status = ''create'', Body = ''page''\<rparr>,
      [pageRequest (NewNotionClient (str ''tok'') (str ''db''))
         (pageProps (NewNotionClient (str ''tok'') (str ''db'')) (str ''T (A)'') (str ''A''))]) \<and>
   snd (createPage (example_env 200 False 400) (NewNotionClient (str ''tok'') (str ''db''))
          (str ''T (A)'') (str ''A'') []) =
     [pageRequest (NewNotionClient (str ''tok'') (str ''db''))
        [(str ''Title'', TitleValue (str ''T (A)'')), (str ''Author'', RichTextValue (str ''A''))],
      pageRequest (NewNotionClient (str ''tok'') (str ''db''))
        [(str ''Title'', TitleValue (str ''T (A)''))]]"
proof -
  let ?env = "example_env 200 False 400"
  let ?cl = "NewNotionClient (str ''tok'') (str ''db'')"
  let ?props = "pageProps ?cl (str ''T (A)'') (str ''A'')"
  have p: "?props = [(str ''Title'', TitleValue (str ''T (A)'')), (str ''Author'', RichTextValue (str ''A''))]"
    by (simp add: pageProps_def NewNotionClient_def str_def)
  have d: "AList.delete (str ''Author'') ?props = [(str ''Title'', TitleValue (str ''T (A)''))]"
    unfolding p by (simp add: str_def)
  have h: "createReq ?env [] (PagePayload (databaseID ?cl) ?props) =
     (Inr \<lparr>StatusCode = 400, Status = ''create'', Body = ''page''\<rparr>, [pageRequest ?cl ?props])"
    unfolding p
    by (simp add: createReq_def send_def example_env_def example_Do_def hasAuthor_def pageRequest_def str_def)
  have a: "str ''A'' \<noteq> []" by (simp add: str_def)
  from createPage_fallback [OF h, THEN conjunct1] a
  have "snd (createPage ?env ?cl (str ''T (A)'') (str ''A'') []) =
          [pageRequest ?cl ?props, pageRequest ?cl (AList.delete (str ''Author'') ?props)]"
    by simp
  then show ?thesis using h unfolding d p by (simp add: str_def)
qed

theorem createPage_fallback_counterexample:
  "fst (EnsureBookPage (example_env 200 False 404) (Some (NewNotionClient (str ''tok'') (str ''db'')))
          (str ''T'') (str ''A'') [] []) = Some (CreatePageError ''create'' ''page'') \<and>
   length (filter isCreate
     (snd (snd (EnsureBookPage (example_env 200 False 404) (Some (NewNotionClient (str ''tok'') (str ''db'')))
          (str ''T'') (str ''A'') [] [])))) = 1"
proof -
  let ?cr = "\<lparr>token = str ''tok'', databaseID = str ''db'', titlePropName = str ''Name'', resolvedTitle = True\<rparr>"
  have c: "createPage (example_env 200 False 404) ?cr nt (str ''A'') log =
     (Inl (CreatePageError ''create'' ''page''),
      log @ [pageRequest ?cr (pageProps ?cr nt (str ''A''))])" for log nt
    by (simp add: createPage_def pageProps_def createReq_def pageIDOf_def example_env_def example_Do_def
        send_def hasAuthor_def pageRequest_def truncateForLog_def str_def)
  have a: "str ''A'' \<noteq> []" by (simp add: str_def)
  have "EnsureBookPage (example_env 200 False 404) (Some (NewNotionClient (str ''tok'') (str ''db'')))
          (str ''T'') (str ''A'') [] [] =
        (Some (CreatePageError ''create'' ''page''), Some ?cr,
         [\<lparr>req_method = GET, req_url = str ''https://api.notion.com/v1/databases/db'', req_body = NoPayload\<rparr>,
          \<lparr>req_method = POST, req_url = str ''https://api.notion.com/v1/databases/db/query'',
             req_body = QueryPayload (str ''Name'') (notionTitle (str ''T'') (str ''A''))\<rparr>,
          pageRequest ?cr (pageProps ?cr (notionTitle (str ''T'') (str ''A'')) (str ''A''))])"
    by (simp add: EnsureBookPage_def example_resolve example_exists c)
  then show ?thesis
    by (simp add: isCreate_def pageRequest_def)
qed

text \<open>
  C7: when the existence query of a book finds a page, \<open>EnsureBookPage\<close> returns no
  error, the call has sent no create and no append request, and the export goes on with
  the next book.
\<close>

theorem existing_page_no_writes:
  assumes "resolveIfNeeded env n0 log = (n1, log1)"
    and "pageExistsByTitle env n1 log1 (notionTitle t a) = (Inr True, n, log2)"
  shows "EnsureBookPage env (Some n0) t a hs log = (None, Some n, log2) \<and>
         take (length log) log2 = log \<and>
         filter isWrite (drop (length log) log2) = [] \<and>
         notionExportLoop env (Some n0) (\<lparr>Title = t, Author = a, Highlights = H\<rparr> # bs) log =
           notionExportLoop env (Some n) bs log2"
proof -
  have e: "EnsureBookPage env (Some n0) t a hs log = (None, Some n, log2)" for hs
    using assms by (simp add: EnsureBookPage_def)
  from resolveIfNeeded_log [OF assms(1)] obtain new1 where
    1: "log1 = log @ new1" "\<forall>rq\<in>set new1. req_body rq = NoPayload \<and> req_method rq = GET" by blast
  from pageExists_log [OF assms(2)] obtain new2 where
    2: "log2 = log1 @ new2" "\<forall>rq\<in>set new2. \<not> isWrite rq \<and> \<not> isAppend rq \<and> \<not> isCreate rq" by blast
  have l: "log2 = log @ (new1 @ new2)" using 1 2 by simp
  have "filter isWrite (new1 @ new2) = []"
    using 1 2 by (auto simp: filter_empty_conv NoPayload_kind)
  then have w: "filter isWrite (drop (length log) log2) = []" unfolding l by simp
  have t: "take (length log) log2 = log" unfolding l by simp
  have x: "notionExportLoop env (Some n0) (\<lparr>Title = t, Author = a, Highlights = H\<rparr> # bs) log =
           notionExportLoop env (Some n) bs log2"
    by (simp add: e)
  from e w t x show ?thesis by blast
qed

theorem existing_page_no_writes_witness:
  "EnsureBookPage (example_env 200 True 200) (Some (NewNotionClient (str ''tok'') (str ''db'')))
     (str ''T'') [] [str ''x''] [] =
   (None, Some \<lparr>token = str ''tok'', databaseID = str ''db'', titlePropName = str ''Name'', resolvedTitle = True\<rparr>,
    [\<lparr>req_method = GET, req_url = str ''https://api.notion.com/v1/databases/db'', req_body = NoPayload\<rparr>,
     \<lparr>req_method = POST, req_url = str ''https://api.notion.com/v1/databases/db/query'',
        req_body = QueryPayload (str ''Name'') (str ''T'')\<rparr>])"
proof -
  have n: "notionTitle (str ''T'') [] = str ''T''" by (simp add: notionTitle_def)
  from existing_page_no_writes [OF example_resolve [of True 200],
      of "str ''T''" "[]" _ _ "[str ''x'']", unfolded n, OF example_exists [of True 200]]
  show ?thesis by simp
qed














end
